theory Spec2Isabelle
  imports Complex_Main
begin

section \<open>Numbers and their conversion to strings\<close>

text \<open>
  The TypeScript sources compute with the JavaScript \<^verbatim>\<open>number\<close> type. It is modelled by
  the real numbers: finite values with exact arithmetic. Rounding and the non-finite values
  (\<^verbatim>\<open>NaN\<close>, \<^verbatim>\<open>Infinity\<close>) are outside the model; the two operations of the sources that can
  leave the finite numbers are \<^verbatim>\<open>0.75 / scaling\<close> at \<^verbatim>\<open>scaling = 0\<close>, which is \<^verbatim>\<open>Infinity\<close>
  in the sources and \<open>0\<close> here, and \<^verbatim>\<open>lineThickness**0.5\<close> at a negative thickness, which is
  \<^verbatim>\<open>NaN\<close> in the sources and \<open>- sqrt \<bar>t\<bar>\<close> here. The definitions are faithful for a scaling
  other than \<open>0\<close> and a thickness that is not negative. The lemmas below are facts about the
  definitions for all reals; the theorems on the properties of the program assume
  \<open>0 < scaling\<close>, respectively a thickness that is not negative, for every conclusion that
  depends on the line thickness of a refresh or on the path of a corner box.

  A template literal \<^verbatim>\<open>`${n}`\<close> converts the number \<^verbatim>\<open>n\<close> to a string with the language's own
  \<^verbatim>\<open>Number::toString\<close>. That conversion is not part of the sources; every operation that
  formats a number takes it as the parameter \<open>str\<close>.
\<close>

type_synonym number = real

text \<open>
  To run the examples, \<open>decimal\<close> is a conversion that agrees with JavaScript on the integers
  (of magnitude below \<^verbatim>\<open>1e21\<close>) and on short decimal fractions such as \<^verbatim>\<open>0.5\<close>: an optional
  minus sign, the decimal digits of the integer part and, unless it is zero, a point and the
  digits of the fractional part (at most sixteen).
\<close>

definition digit :: "nat \<Rightarrow> char" where
  "digit n = ''0123456789'' ! (n mod 10)"

function nat_dec :: "nat \<Rightarrow> string" where
  "nat_dec n = (if n < 10 then [digit n] else nat_dec (n div 10) @ [digit n])"
  by pat_completeness auto
termination
  by (relation "measure (\<lambda>n. n)") auto

declare nat_dec.simps [simp del]

fun frac_dec :: "nat \<Rightarrow> number \<Rightarrow> string" where
  "frac_dec 0 f = []"
| "frac_dec (Suc n) f =
     (if f = 0 then [] else digit (nat \<lfloor>10 * f\<rfloor>) # frac_dec n (10 * f - of_int \<lfloor>10 * f\<rfloor>))"

definition decimal :: "number \<Rightarrow> string" where
  "decimal r =
     (let a = \<bar>r\<bar>; f = a - of_int \<lfloor>a\<rfloor>
      in (if r < 0 then ''-'' else []) @ nat_dec (nat \<lfloor>a\<rfloor>)
           @ (if f = 0 then [] else ''.'' @ frac_dec 16 f))"

text \<open>
  A conversion prints integers in decimal when it agrees with \<open>decimal\<close> on the integers of
  magnitude below \<^verbatim>\<open>1e21\<close>, from where on \<^verbatim>\<open>Number::toString\<close> uses the exponential notation.
\<close>

definition prints_integers :: "(number \<Rightarrow> string) \<Rightarrow> bool" where
  "prints_integers str = (\<forall>k::int. \<bar>k\<bar> < 10 ^ 21 \<longrightarrow> str (of_int k) = decimal (of_int k))"

section \<open>Boxes\<close>

text \<open>
  The interface \<^verbatim>\<open>BoxLike\<close> of \<^verbatim>\<open>BoxHighlighting.ts\<close> and the interface \<^verbatim>\<open>Box\<close> of the
  box trace: the minimum corner and the extents.
\<close>

record Box =
  box_x :: number
  box_y :: number
  box_width :: number
  box_height :: number

text \<open>
  Modelled from the spec: the class \<^verbatim>\<open>Box\<close> of the package \<^verbatim>\<open>@rnacanvas/boxes\<close> is not among
  the sources. A box is its minimum corner plus non-negative extents, \<^verbatim>\<open>Box.matching\<close> returns
  a box with the coordinates of its argument, and \<^verbatim>\<open>minX\<close>, \<^verbatim>\<open>maxX\<close>, \<^verbatim>\<open>minY\<close>, \<^verbatim>\<open>maxY\<close>
  are the coordinates of its sides.
\<close>

definition matching :: "Box \<Rightarrow> Box" where
  "matching boxLike = \<lparr>box_x = box_x boxLike, box_y = box_y boxLike,
     box_width = box_width boxLike, box_height = box_height boxLike\<rparr>"

definition minX :: "Box \<Rightarrow> number" where "minX b = box_x b"
definition maxX :: "Box \<Rightarrow> number" where "maxX b = box_x b + box_width b"
definition minY :: "Box \<Rightarrow> number" where "minY b = box_y b"
definition maxY :: "Box \<Rightarrow> number" where "maxY b = box_y b + box_height b"

section \<open>The document object model\<close>

text \<open>
  The classes keep references to DOM nodes and change them through \<^verbatim>\<open>createElementNS\<close>,
  \<^verbatim>\<open>appendChild\<close>, \<^verbatim>\<open>append\<close>, \<^verbatim>\<open>remove\<close> and \<^verbatim>\<open>setAttribute\<close>. These belong to the host
  platform; they are modelled after the DOM standard as operations on an explicit store.
  A node is its address. The store records, for every node, its parent pointer, its ordered
  child list, its attributes and its inline style properties; \<open>next_node\<close> is the first
  address that no \<^verbatim>\<open>createElementNS\<close> has handed out yet.
\<close>

type_synonym node = nat

datatype error = HierarchyRequestError | TypeError | Thrown string

record DOM =
  next_node :: node
  tagName :: "node \<Rightarrow> string option"
  parentNode :: "node \<Rightarrow> node option"
  childNodes :: "node \<Rightarrow> node list"
  attributes :: "node \<Rightarrow> string \<Rightarrow> string option"
  style :: "node \<Rightarrow> string \<Rightarrow> string option"

definition and_then :: "error + 'a \<Rightarrow> ('a \<Rightarrow> error + 'b) \<Rightarrow> error + 'b" where
  "and_then m f = (case m of Inl e \<Rightarrow> Inl e | Inr a \<Rightarrow> f a)"

definition svg :: string where
  "svg = ''http://www.w3.org/2000/svg''"

definition createElementNS :: "string \<Rightarrow> string \<Rightarrow> DOM \<Rightarrow> node \<times> DOM" where
  "createElementNS ns name d =
     (next_node d, d\<lparr>next_node := Suc (next_node d), tagName := (tagName d)(next_node d \<mapsto> name)\<rparr>)"

definition setAttribute :: "node \<Rightarrow> string \<Rightarrow> string \<Rightarrow> DOM \<Rightarrow> DOM" where
  "setAttribute n name v d = d\<lparr>attributes := (attributes d)(n := (attributes d n)(name \<mapsto> v))\<rparr>"

definition getAttribute :: "node \<Rightarrow> string \<Rightarrow> DOM \<Rightarrow> string option" where
  "getAttribute n name d = attributes d n name"

definition setStyle :: "node \<Rightarrow> string \<Rightarrow> string \<Rightarrow> DOM \<Rightarrow> DOM" where
  "setStyle n name v d = d\<lparr>style := (style d)(n := (style d n)(name \<mapsto> v))\<rparr>"

text \<open>
  \<open>inclusive_ancestor k par a n\<close>: \<open>a\<close> is \<open>n\<close> or one of the first \<open>k\<close> ancestors of
  \<open>n\<close>. A tree of the store has fewer than \<open>next_node\<close> levels, which is the bound that
  \<open>appendChild\<close> passes.
\<close>

fun inclusive_ancestor :: "nat \<Rightarrow> (node \<Rightarrow> node option) \<Rightarrow> node \<Rightarrow> node \<Rightarrow> bool" where
  "inclusive_ancestor 0 par a n = (a = n)"
| "inclusive_ancestor (Suc k) par a n =
     (a = n \<or> (case par n of None \<Rightarrow> False | Some p \<Rightarrow> inclusive_ancestor k par a p))"

text \<open>
  \<^verbatim>\<open>node.remove()\<close>: nothing happens when the node has no parent; otherwise the node leaves
  its parent's child list.
\<close>

definition remove_node :: "node \<Rightarrow> DOM \<Rightarrow> DOM" where
  "remove_node n d =
     (case parentNode d n of
        None \<Rightarrow> d
      | Some p \<Rightarrow> d\<lparr>parentNode := (parentNode d)(n := None),
                     childNodes := (childNodes d)(p := remove1 n (childNodes d p))\<rparr>)"

text \<open>
  \<^verbatim>\<open>container.appendChild(node)\<close>. An address that no \<^verbatim>\<open>createElementNS\<close> has handed out
  is not a node, and the call throws a \<^verbatim>\<open>TypeError\<close>. A node cannot be put below itself
  (\<^verbatim>\<open>HierarchyRequestError\<close>). Otherwise the node is first removed from the parent it has,
  and then becomes the last child of the container.
\<close>

definition appendChild :: "node \<Rightarrow> node \<Rightarrow> DOM \<Rightarrow> error + DOM" where
  "appendChild container n d =
     (if \<not> (container < next_node d \<and> n < next_node d) then Inl TypeError
      else if inclusive_ancestor (next_node d) (parentNode d) n container then Inl HierarchyRequestError
      else let d' = remove_node n d
           in Inr (d'\<lparr>parentNode := (parentNode d')(n \<mapsto> container),
                      childNodes := (childNodes d')(container := childNodes d' container @ [n])\<rparr>))"

text \<open>\<^verbatim>\<open>parent.append(n1, ..., nk)\<close> appends the nodes in the order given.\<close>

fun append_nodes :: "node \<Rightarrow> node list \<Rightarrow> DOM \<Rightarrow> error + DOM" where
  "append_nodes p [] d = Inr d"
| "append_nodes p (n # ns) d = and_then (appendChild p n d) (append_nodes p ns)"

text \<open>The store is a forest: the parent pointers and the child lists describe each other.\<close>

definition dom_ok :: "DOM \<Rightarrow> bool" where
  "dom_ok d =
     ((\<forall>n p. parentNode d n = Some p \<longleftrightarrow> n \<in> set (childNodes d p))
      \<and> (\<forall>p. distinct (childNodes d p))
      \<and> (\<forall>n. next_node d \<le> n \<longrightarrow> parentNode d n = None \<and> childNodes d n = []))"

definition parents :: "DOM \<Rightarrow> node \<Rightarrow> node set" where
  "parents d n = {p. n \<in> set (childNodes d p)}"

section \<open>The box trace (dashed outline)\<close>

text \<open>
  The class \<^verbatim>\<open>BoxTrace\<close>: a group node with two dashed paths along the same outline. An
  object of the class is the record of its node references; its visual state lives in the
  store.
\<close>

record BoxTrace =
  bt_domNode :: node
  lightDashing :: node
  darkDashing :: node

definition setAttributes :: "(node \<times> string \<times> string) list \<Rightarrow> DOM \<Rightarrow> DOM" where
  "setAttributes kvs d = foldl (\<lambda>d (n, name, v). setAttribute n name v d) d kvs"

definition BoxTrace_new :: "DOM \<Rightarrow> error + (BoxTrace \<times> DOM)" where
  "BoxTrace_new d0 =
     (let (g, d1) = createElementNS svg ''g'' d0;
          (light, d2) = createElementNS svg ''path'' d1;
          (dark, d3) = createElementNS svg ''path'' d2
      in and_then (append_nodes g [light, dark] d3) (\<lambda>d4.
           Inr (\<lparr>bt_domNode = g, lightDashing = light, darkDashing = dark\<rparr>,
                setAttributes
                  [(light, ''stroke'', ''powderblue''),
                   (dark, ''stroke'', ''blue''),
                   (light, ''stroke-dasharray'', ''0 1''),
                   (dark, ''stroke-dasharray'', ''0 1''),
                   (light, ''stroke-linecap'', ''round''),
                   (dark, ''stroke-linecap'', ''round''),
                   (dark, ''stroke-dashoffset'', ''0.5''),
                   (light, ''stroke-width'', ''0.4''),
                   (dark, ''stroke-width'', ''0.4''),
                   (light, ''fill'', ''none''),
                   (dark, ''fill'', ''none'')]
                  (setStyle g ''pointerEvents'' ''none'' d4))))"

definition BoxTrace_appendTo :: "node \<Rightarrow> BoxTrace \<Rightarrow> DOM \<Rightarrow> error + DOM" where
  "BoxTrace_appendTo container t d = appendChild container (bt_domNode t) d"

definition BoxTrace_remove :: "BoxTrace \<Rightarrow> DOM \<Rightarrow> DOM" where
  "BoxTrace_remove t d = remove_node (bt_domNode t) d"

text \<open>The template literal of \<^verbatim>\<open>trace\<close> and of \<^verbatim>\<open>highlight\<close>.\<close>

definition perimeter_d :: "(number \<Rightarrow> string) \<Rightarrow> Box \<Rightarrow> string" where
  "perimeter_d str box =
     ''M '' @ str (box_x box) @ '' '' @ str (box_y box) @ '' h '' @ str (box_width box)
       @ '' v '' @ str (box_height box) @ '' h '' @ str (- box_width box) @ '' z''"

definition trace :: "(number \<Rightarrow> string) \<Rightarrow> Box \<Rightarrow> BoxTrace \<Rightarrow> DOM \<Rightarrow> DOM" where
  "trace str box t d =
     (let d_attr = perimeter_d str box
      in setAttribute (darkDashing t) ''d'' d_attr (setAttribute (lightDashing t) ''d'' d_attr d))"

definition setThickness :: "(number \<Rightarrow> string) \<Rightarrow> number \<Rightarrow> BoxTrace \<Rightarrow> DOM \<Rightarrow> DOM" where
  "setThickness str thickness t d =
     setAttribute (darkDashing t) ''stroke-width'' (str thickness)
       (setAttribute (lightDashing t) ''stroke-width'' (str thickness) d)"

definition BoxTrace_setOpacity :: "(number \<Rightarrow> string) \<Rightarrow> number \<Rightarrow> BoxTrace \<Rightarrow> DOM \<Rightarrow> DOM" where
  "BoxTrace_setOpacity str opacity t d = setAttribute (bt_domNode t) ''opacity'' (str opacity) d"

section \<open>The box highlighting (outline with corner boxes)\<close>

text \<open>
  The class \<^verbatim>\<open>BoxHighlighting\<close>. Besides its node references an object holds the private
  field \<^verbatim>\<open>#lineThickness\<close> and the box highlighted last (\<open>None\<close> for \<^verbatim>\<open>undefined\<close>).
\<close>

record BoxHighlighting =
  bh_domNode :: node
  boxTrace :: node
  topLeftCornerBox :: node
  topRightCornerBox :: node
  bottomRightCornerBox :: node
  bottomLeftCornerBox :: node
  lineThickness :: number
  highlightedBox :: "Box option"

definition cornerBoxes :: "BoxHighlighting \<Rightarrow> node list" where
  "cornerBoxes h =
     [topLeftCornerBox h, topRightCornerBox h, bottomRightCornerBox h, bottomLeftCornerBox h]"

definition BoxHighlighting_new :: "(number \<Rightarrow> string) \<Rightarrow> DOM \<Rightarrow> error + (BoxHighlighting \<times> DOM)" where
  "BoxHighlighting_new str d0 =
     (let (g, d1) = createElementNS svg ''g'' d0;
          (bt, d2) = createElementNS svg ''path'' d1;
          (tl, d3) = createElementNS svg ''path'' d2;
          (tr, d4) = createElementNS svg ''path'' d3;
          (br, d5) = createElementNS svg ''path'' d4;
          (bl, d6) = createElementNS svg ''path'' d5;
          h = \<lparr>bh_domNode = g, boxTrace = bt, topLeftCornerBox = tl, topRightCornerBox = tr,
               bottomRightCornerBox = br, bottomLeftCornerBox = bl,
               lineThickness = 0.5, highlightedBox = None\<rparr>
      in and_then (append_nodes g (bt # cornerBoxes h) d6) (\<lambda>d7.
           Inr (h,
                setAttributes
                  (concat (map (\<lambda>cornerBox.
                     [(cornerBox, ''stroke'', ''blue''),
                      (cornerBox, ''stroke-width'', str (lineThickness h)),
                      (cornerBox, ''fill'', ''white'')]) (cornerBoxes h)))
                  (setAttributes
                     [(bt, ''stroke'', ''blue''),
                      (bt, ''stroke-width'', str (lineThickness h)),
                      (bt, ''fill'', ''none'')]
                     (setStyle g ''pointerEvents'' ''none'' d7)))))"

definition BoxHighlighting_appendTo :: "node \<Rightarrow> BoxHighlighting \<Rightarrow> DOM \<Rightarrow> error + DOM" where
  "BoxHighlighting_appendTo container h d = appendChild container (bh_domNode h) d"

definition BoxHighlighting_remove :: "BoxHighlighting \<Rightarrow> DOM \<Rightarrow> DOM" where
  "BoxHighlighting_remove h d = remove_node (bh_domNode h) d"

text \<open>
  \<^verbatim>\<open>cornerBoxD\<close>. For a thickness that is not negative, \<^verbatim>\<open>lineThickness**0.5\<close> is the square
  root.
\<close>

definition cornerBoxD :: "(number \<Rightarrow> string) \<Rightarrow> number \<Rightarrow> number \<times> number \<Rightarrow> string" where
  "cornerBoxD str thickness centerPoint =
     ''M '' @ str (fst centerPoint - (2 * sqrt thickness)) @ '' ''
            @ str (snd centerPoint - (2 * sqrt thickness))
       @ '' h '' @ str (2 * sqrt thickness)
       @ '' v '' @ str (2 * sqrt thickness)
       @ '' h '' @ str (- 2 * (sqrt thickness))
       @ '' z''"

fun highlight :: "(number \<Rightarrow> string) \<Rightarrow> Box \<Rightarrow> BoxHighlighting \<times> DOM \<Rightarrow> BoxHighlighting \<times> DOM" where
  "highlight str boxLike (h, d) =
       (let box = matching boxLike;
            t = lineThickness h
        in (h\<lparr>highlightedBox := Some box\<rparr>,
            setAttributes
              [(boxTrace h, ''d'', perimeter_d str box),
               (topLeftCornerBox h, ''d'', cornerBoxD str t (minX box, minY box)),
               (topRightCornerBox h, ''d'', cornerBoxD str t (maxX box, minY box)),
               (bottomRightCornerBox h, ''d'', cornerBoxD str t (maxX box, maxY box)),
               (bottomLeftCornerBox h, ''d'', cornerBoxD str t (minX box, maxY box))]
              d))"

text \<open>The setter of \<^verbatim>\<open>lineThickness\<close>.\<close>

fun set_lineThickness ::
  "(number \<Rightarrow> string) \<Rightarrow> number \<Rightarrow> BoxHighlighting \<times> DOM \<Rightarrow> BoxHighlighting \<times> DOM" where
  "set_lineThickness str thickness (h, d) =
       (let h1 = h\<lparr>lineThickness := thickness\<rparr>;
            d1 = setAttributes
                   (map (\<lambda>ele. (ele, ''stroke-width'', str thickness)) (boxTrace h1 # cornerBoxes h1)) d
        in (case highlightedBox h1 of
              Some box \<Rightarrow> highlight str box (h1, d1)
            | None \<Rightarrow> (h1, d1)))"

definition BoxHighlighting_setOpacity ::
  "(number \<Rightarrow> string) \<Rightarrow> number \<Rightarrow> BoxHighlighting \<Rightarrow> DOM \<Rightarrow> DOM" where
  "BoxHighlighting_setOpacity str opacity h d = setAttribute (bh_domNode h) ''opacity'' (str opacity) d"

section \<open>Reading path data\<close>

text \<open>
  The \<^verbatim>\<open>d\<close> attributes written by the classes use four commands of the SVG path syntax:
  an absolute move, relative horizontal and vertical lines, and closing the path.
  \<open>path_d\<close> writes a command list as the classes do; \<open>vertices\<close> follows the pen.
\<close>

datatype path_cmd = MoveTo number number | HorizontalBy number | VerticalBy number | ClosePath

fun path_cmd_d :: "(number \<Rightarrow> string) \<Rightarrow> path_cmd \<Rightarrow> string" where
  "path_cmd_d str (MoveTo a b) = ''M '' @ str a @ '' '' @ str b"
| "path_cmd_d str (HorizontalBy a) = ''h '' @ str a"
| "path_cmd_d str (VerticalBy a) = ''v '' @ str a"
| "path_cmd_d str ClosePath = ''z''"

fun path_d :: "(number \<Rightarrow> string) \<Rightarrow> path_cmd list \<Rightarrow> string" where
  "path_d str [] = []"
| "path_d str [c] = path_cmd_d str c"
| "path_d str (c # cs) = path_cmd_d str c @ '' '' @ path_d str cs"

fun vertices_from :: "number \<times> number \<Rightarrow> path_cmd list \<Rightarrow> (number \<times> number) list" where
  "vertices_from p [] = []"
| "vertices_from p (MoveTo a b # cs) = (a, b) # vertices_from (a, b) cs"
| "vertices_from p (HorizontalBy a # cs) = (fst p + a, snd p) # vertices_from (fst p + a, snd p) cs"
| "vertices_from p (VerticalBy a # cs) = (fst p, snd p + a) # vertices_from (fst p, snd p + a) cs"
| "vertices_from p (ClosePath # cs) = vertices_from p cs"

definition vertices :: "path_cmd list \<Rightarrow> (number \<times> number) list" where
  "vertices cs = vertices_from (0, 0) cs"

definition center :: "(number \<times> number) list \<Rightarrow> number \<times> number" where
  "center ps = (sum_list (map fst ps) / real (length ps), sum_list (map snd ps) / real (length ps))"

definition perimeter_path :: "Box \<Rightarrow> path_cmd list" where
  "perimeter_path box =
     [MoveTo (box_x box) (box_y box), HorizontalBy (box_width box), VerticalBy (box_height box),
      HorizontalBy (- box_width box), ClosePath]"

definition cornerBox_path :: "number \<Rightarrow> number \<times> number \<Rightarrow> path_cmd list" where
  "cornerBox_path thickness centerPoint =
     [MoveTo (fst centerPoint - (2 * sqrt thickness)) (snd centerPoint - (2 * sqrt thickness)),
      HorizontalBy (2 * sqrt thickness), VerticalBy (2 * sqrt thickness),
      HorizontalBy (- 2 * (sqrt thickness)), ClosePath]"

definition corners :: "Box \<Rightarrow> (number \<times> number) list" where
  "corners box = [(minX box, minY box), (maxX box, minY box), (maxX box, maxY box), (minX box, maxY box)]"

section \<open>The environment of a controller\<close>

text \<open>
  A controller registers the callback \<^verbatim>\<open>() => this.refresh()\<close> twice: as a listener for the
  \<^verbatim>\<open>change\<close> event of the live set of target elements, and as the callback of a
  \<^verbatim>\<open>MutationObserver\<close> that observes the parent SVG document. The world of a controller is
  the store, the console, and the registrations.
\<close>

datatype listener = CallRefresh

record MutationObserverInit =
  observe_attributes :: bool
  observe_childList :: bool
  observe_characterData :: bool
  observe_subtree :: bool

record world =
  doc :: DOM
  console :: "error list"
  changeListeners :: "listener list"
  observers :: "(listener \<times> node \<times> MutationObserverInit) list"

text \<open>
  The live set and the target elements are external. A refresh reads them once: it iterates
  the set and calls \<^verbatim>\<open>getBBox()\<close> on each member, which returns a box or throws. A target is
  therefore modelled by the outcome of that call.
\<close>

type_synonym target = "error + Box"

text \<open>
  \<^verbatim>\<open>array.forEach((element, index) => ...)\<close> with a callback that changes the state
  \<open>'s\<close>; in the second form the callback can throw, which ends the loop.
\<close>

fun forEach_from :: "nat \<Rightarrow> ('a \<Rightarrow> nat \<Rightarrow> 's \<Rightarrow> 's) \<Rightarrow> 'a list \<Rightarrow> 's \<Rightarrow> 's" where
  "forEach_from i f [] s = s"
| "forEach_from i f (a # as) s = forEach_from (Suc i) f as (f a i s)"

definition forEach :: "('a \<Rightarrow> nat \<Rightarrow> 's \<Rightarrow> 's) \<Rightarrow> 'a list \<Rightarrow> 's \<Rightarrow> 's" where
  "forEach f as s = forEach_from 0 f as s"

fun forEach_throwing_from ::
  "nat \<Rightarrow> ('a \<Rightarrow> nat \<Rightarrow> 's \<Rightarrow> error + 's) \<Rightarrow> 'a list \<Rightarrow> 's \<Rightarrow> error + 's" where
  "forEach_throwing_from i f [] s = Inr s"
| "forEach_throwing_from i f (a # as) s = and_then (f a i s) (forEach_throwing_from (Suc i) f as)"

definition forEach_throwing :: "('a \<Rightarrow> nat \<Rightarrow> 's \<Rightarrow> error + 's) \<Rightarrow> 'a list \<Rightarrow> 's \<Rightarrow> error + 's" where
  "forEach_throwing f as s = forEach_throwing_from 0 f as s"

section \<open>The controller with box highlightings\<close>

text \<open>The class \<^verbatim>\<open>LiveSVGElementHighlightings\<close> of \<^verbatim>\<open>LiveSVGElementHighlightings.ts\<close>.\<close>

record LiveSVGElementHighlightings =
  domNode :: node
  boxHighlightings :: "BoxHighlighting list"
  parentSVGDoc :: node

definition LiveSVGElementHighlightings_new ::
  "node \<Rightarrow> world \<Rightarrow> LiveSVGElementHighlightings \<times> world" where
  "LiveSVGElementHighlightings_new parentDoc w =
     (let (g, d1) = createElementNS svg ''g'' (doc w)
      in (\<lparr>domNode = g, boxHighlightings = [], parentSVGDoc = parentDoc\<rparr>,
          w\<lparr>doc := d1,
            changeListeners := changeListeners w @ [CallRefresh],
            observers := observers w @
              [(CallRefresh, parentDoc,
                \<lparr>observe_attributes = True, observe_childList = True,
                 observe_characterData = True, observe_subtree = True\<rparr>)]\<rparr>))"

fun appendTo ::
  "node \<Rightarrow> LiveSVGElementHighlightings \<times> world \<Rightarrow> error + LiveSVGElementHighlightings \<times> world" where
  "appendTo container (this, w) =
     and_then (appendChild container (domNode this) (doc w)) (\<lambda>d. Inr (this, w\<lparr>doc := d\<rparr>))"

fun remove_highlightings ::
  "LiveSVGElementHighlightings \<times> world \<Rightarrow> LiveSVGElementHighlightings \<times> world" where
  "remove_highlightings (this, w) = (this, w\<lparr>doc := remove_node (domNode this) (doc w)\<rparr>)"

text \<open>The three loops of \<^verbatim>\<open>refresh\<close>, callback by callback.\<close>

fun create_boxHighlighting ::
  "(number \<Rightarrow> string) \<Rightarrow> target \<Rightarrow> nat \<Rightarrow> LiveSVGElementHighlightings \<times> world
     \<Rightarrow> error + LiveSVGElementHighlightings \<times> world" where
  "create_boxHighlighting str ele i (this, w) =
     and_then (BoxHighlighting_new str (doc w)) (\<lambda>(boxHighlighting, d1).
     and_then (BoxHighlighting_appendTo (domNode this) boxHighlighting d1) (\<lambda>d2.
       Inr (this\<lparr>boxHighlightings := boxHighlightings this @ [boxHighlighting]\<rparr>, w\<lparr>doc := d2\<rparr>)))"

text \<open>
  The callback of the second loop is one \<^verbatim>\<open>try\<close> statement. \<^verbatim>\<open>this.boxHighlightings[i]\<close>
  is \<^verbatim>\<open>undefined\<close> beyond the end of the array, and the method call on it throws a
  \<^verbatim>\<open>TypeError\<close>; \<^verbatim>\<open>ele.getBBox()\<close> can throw. Whatever is thrown is caught and logged.
  \<open>try_highlight\<close> is the three method calls on the box highlighting once the bounding
  box is there.
\<close>

definition try_highlight ::
  "(number \<Rightarrow> string) \<Rightarrow> number \<Rightarrow> Box \<Rightarrow> BoxHighlighting \<times> DOM \<Rightarrow> BoxHighlighting \<times> DOM" where
  "try_highlight str thickness bbox marker =
     (let (h1, d1) = highlight str bbox marker;
          (h2, d2) = set_lineThickness str thickness (h1, d1)
      in (h2, BoxHighlighting_setOpacity str 1 h2 d2))"

fun highlight_target ::
  "(number \<Rightarrow> string) \<Rightarrow> number \<Rightarrow> target \<Rightarrow> nat \<Rightarrow> LiveSVGElementHighlightings \<times> world
     \<Rightarrow> LiveSVGElementHighlightings \<times> world" where
  "highlight_target str thickness ele i (this, w) =
     (if i < length (boxHighlightings this) then
        (case ele of
           Inr bbox \<Rightarrow>
             (let (h, d) = try_highlight str thickness bbox (boxHighlightings this ! i, doc w)
              in (this\<lparr>boxHighlightings := (boxHighlightings this)[i := h]\<rparr>, w\<lparr>doc := d\<rparr>))
         | Inl error \<Rightarrow> (this, w\<lparr>console := console w @ [error]\<rparr>))
      else (this, w\<lparr>console := console w @ [TypeError]\<rparr>))"

fun hide_boxHighlighting ::
  "(number \<Rightarrow> string) \<Rightarrow> BoxHighlighting \<Rightarrow> nat \<Rightarrow> LiveSVGElementHighlightings \<times> world
     \<Rightarrow> LiveSVGElementHighlightings \<times> world" where
  "hide_boxHighlighting str boxHighlighting i (this, w) =
     (this, w\<lparr>doc := BoxHighlighting_setOpacity str 0 boxHighlighting (doc w)\<rparr>)"

text \<open>
  \<^verbatim>\<open>refresh\<close>. Its inputs are what it reads from outside: the members of the live set in
  iteration order, and the value of \<^verbatim>\<open>horizontalScaling\<close> of the coordinate system of the
  parent document at this refresh. The line thickness \<^verbatim>\<open>0.75 / scaling\<close> is the quotient of the
  sources for a scaling other than \<open>0\<close>.
\<close>

definition refresh ::
  "(number \<Rightarrow> string) \<Rightarrow> target list \<Rightarrow> number \<Rightarrow> LiveSVGElementHighlightings \<times> world
     \<Rightarrow> error + LiveSVGElementHighlightings \<times> world" where
  "refresh str targetSVGElements scaling s =
     and_then
       (forEach_throwing (create_boxHighlighting str)
          (drop (length (boxHighlightings (fst s))) targetSVGElements) s)
       (\<lambda>s1.
          let thickness = 0.75 / scaling;
              s2 = forEach (highlight_target str thickness) targetSVGElements s1;
              s3 = forEach (hide_boxHighlighting str)
                     (drop (length targetSVGElements) (boxHighlightings (fst s2))) s2
          in Inr s3)"

section \<open>The controller with box traces\<close>

text \<open>
  The class \<^verbatim>\<open>LiveSVGElementHighlightings\<close> of the source file that imports \<^verbatim>\<open>BoxTrace\<close>. It
  has no coordinate system and sets no thickness.
\<close>

record LiveSVGElementTraces =
  tr_domNode :: node
  boxTraces :: "BoxTrace list"

definition LiveSVGElementTraces_new :: "node \<Rightarrow> world \<Rightarrow> LiveSVGElementTraces \<times> world" where
  "LiveSVGElementTraces_new parentDoc w =
     (let (g, d1) = createElementNS svg ''g'' (doc w)
      in (\<lparr>tr_domNode = g, boxTraces = []\<rparr>,
          w\<lparr>doc := d1,
            changeListeners := changeListeners w @ [CallRefresh],
            observers := observers w @
              [(CallRefresh, parentDoc,
                \<lparr>observe_attributes = True, observe_childList = True,
                 observe_characterData = True, observe_subtree = True\<rparr>)]\<rparr>))"

fun appendTo_traces ::
  "node \<Rightarrow> LiveSVGElementTraces \<times> world \<Rightarrow> error + LiveSVGElementTraces \<times> world" where
  "appendTo_traces container (this, w) =
     and_then (appendChild container (tr_domNode this) (doc w)) (\<lambda>d. Inr (this, w\<lparr>doc := d\<rparr>))"

fun remove_traces :: "LiveSVGElementTraces \<times> world \<Rightarrow> LiveSVGElementTraces \<times> world" where
  "remove_traces (this, w) = (this, w\<lparr>doc := remove_node (tr_domNode this) (doc w)\<rparr>)"

fun create_boxTrace ::
  "target \<Rightarrow> nat \<Rightarrow> LiveSVGElementTraces \<times> world \<Rightarrow> error + LiveSVGElementTraces \<times> world" where
  "create_boxTrace ele i (this, w) =
     and_then (BoxTrace_new (doc w)) (\<lambda>(aBoxTrace, d1).
     and_then (BoxTrace_appendTo (tr_domNode this) aBoxTrace d1) (\<lambda>d2.
       Inr (this\<lparr>boxTraces := boxTraces this @ [aBoxTrace]\<rparr>, w\<lparr>doc := d2\<rparr>)))"

definition try_trace :: "(number \<Rightarrow> string) \<Rightarrow> Box \<Rightarrow> BoxTrace \<Rightarrow> DOM \<Rightarrow> DOM" where
  "try_trace str bbox aBoxTrace d = BoxTrace_setOpacity str 1 aBoxTrace (trace str bbox aBoxTrace d)"

fun trace_target ::
  "(number \<Rightarrow> string) \<Rightarrow> target \<Rightarrow> nat \<Rightarrow> LiveSVGElementTraces \<times> world
     \<Rightarrow> LiveSVGElementTraces \<times> world" where
  "trace_target str ele i (this, w) =
     (if i < length (boxTraces this) then
        (case ele of
           Inr bbox \<Rightarrow> (this, w\<lparr>doc := try_trace str bbox (boxTraces this ! i) (doc w)\<rparr>)
         | Inl error \<Rightarrow> (this, w\<lparr>console := console w @ [error]\<rparr>))
      else (this, w\<lparr>console := console w @ [TypeError]\<rparr>))"

fun hide_boxTrace ::
  "(number \<Rightarrow> string) \<Rightarrow> BoxTrace \<Rightarrow> nat \<Rightarrow> LiveSVGElementTraces \<times> world
     \<Rightarrow> LiveSVGElementTraces \<times> world" where
  "hide_boxTrace str aBoxTrace i (this, w) =
     (this, w\<lparr>doc := BoxTrace_setOpacity str 0 aBoxTrace (doc w)\<rparr>)"

definition refresh_traces ::
  "(number \<Rightarrow> string) \<Rightarrow> target list \<Rightarrow> LiveSVGElementTraces \<times> world
     \<Rightarrow> error + LiveSVGElementTraces \<times> world" where
  "refresh_traces str targetSVGElements s =
     and_then
       (forEach_throwing create_boxTrace
          (drop (length (boxTraces (fst s))) targetSVGElements) s)
       (\<lambda>s1.
          let s2 = forEach (trace_target str) targetSVGElements s1;
              s3 = forEach (hide_boxTrace str)
                     (drop (length targetSVGElements) (boxTraces (fst s2))) s2
          in Inr s3)"

section \<open>Events\<close>

text \<open>
  What happens to a controller after its construction: its public methods are called, and
  the two notification channels fire. A notification carries what the refresh it triggers
  reads from outside. Every registered callback is called.
\<close>

datatype event =
    AppendTo node
  | Remove
  | Change "target list" number
  | Mutation "target list" number

fun call_listeners ::
  "('s \<Rightarrow> error + 's) \<Rightarrow> listener list \<Rightarrow> 's \<Rightarrow> error + 's" where
  "call_listeners r [] s = Inr s"
| "call_listeners r (CallRefresh # ls) s = and_then (r s) (call_listeners r ls)"

fun step ::
  "(number \<Rightarrow> string) \<Rightarrow> event \<Rightarrow> LiveSVGElementHighlightings \<times> world
     \<Rightarrow> error + LiveSVGElementHighlightings \<times> world" where
  "step str (AppendTo container) s = appendTo container s"
| "step str Remove s = Inr (remove_highlightings s)"
| "step str (Change ts scaling) s =
     call_listeners (refresh str ts scaling) (changeListeners (snd s)) s"
| "step str (Mutation ts scaling) s =
     call_listeners (refresh str ts scaling) (map fst (observers (snd s))) s"

fun run ::
  "(number \<Rightarrow> string) \<Rightarrow> event list \<Rightarrow> LiveSVGElementHighlightings \<times> world
     \<Rightarrow> error + LiveSVGElementHighlightings \<times> world" where
  "run str [] s = Inr s"
| "run str (e # es) s = and_then (step str e s) (run str es)"

fun step_traces ::
  "(number \<Rightarrow> string) \<Rightarrow> event \<Rightarrow> LiveSVGElementTraces \<times> world
     \<Rightarrow> error + LiveSVGElementTraces \<times> world" where
  "step_traces str (AppendTo container) s = appendTo_traces container s"
| "step_traces str Remove s = Inr (remove_traces s)"
| "step_traces str (Change ts scaling) s =
     call_listeners (refresh_traces str ts) (changeListeners (snd s)) s"
| "step_traces str (Mutation ts scaling) s =
     call_listeners (refresh_traces str ts) (map fst (observers (snd s))) s"

fun run_traces ::
  "(number \<Rightarrow> string) \<Rightarrow> event list \<Rightarrow> LiveSVGElementTraces \<times> world
     \<Rightarrow> error + LiveSVGElementTraces \<times> world" where
  "run_traces str [] s = Inr s"
| "run_traces str (e # es) s = and_then (step_traces str e s) (run_traces str es)"

definition is_notification :: "event \<Rightarrow> bool" where
  "is_notification e = (case e of Change ts scaling \<Rightarrow> True | Mutation ts scaling \<Rightarrow> True | _ \<Rightarrow> False)"

section \<open>Well-formed objects and states\<close>

text \<open>The nodes that an object owns; in a well-formed object they are different nodes.\<close>

definition BoxTrace_nodes :: "BoxTrace \<Rightarrow> node list" where
  "BoxTrace_nodes t = [bt_domNode t, lightDashing t, darkDashing t]"

definition BoxHighlighting_nodes :: "BoxHighlighting \<Rightarrow> node list" where
  "BoxHighlighting_nodes h = bh_domNode h # boxTrace h # cornerBoxes h"

definition BoxHighlighting_ok :: "BoxHighlighting \<Rightarrow> bool" where
  "BoxHighlighting_ok h = distinct (BoxHighlighting_nodes h)"

text \<open>
  The invariant of a controller: the store is a forest, the controller's group node and the
  nodes of its markers exist and are pairwise different, and the children of the group node
  are the group nodes of the markers, in the order of the pool.
\<close>

fun highlightings_ok :: "LiveSVGElementHighlightings \<times> world \<Rightarrow> bool" where
  "highlightings_ok (this, w) =
     (dom_ok (doc w)
      \<and> domNode this < next_node (doc w)
      \<and> childNodes (doc w) (domNode this) = map bh_domNode (boxHighlightings this)
      \<and> distinct (domNode this # concat (map BoxHighlighting_nodes (boxHighlightings this)))
      \<and> (\<forall>n \<in> set (concat (map BoxHighlighting_nodes (boxHighlightings this))). n < next_node (doc w)))"

fun traces_ok :: "LiveSVGElementTraces \<times> world \<Rightarrow> bool" where
  "traces_ok (this, w) =
     (dom_ok (doc w)
      \<and> tr_domNode this < next_node (doc w)
      \<and> childNodes (doc w) (tr_domNode this) = map bt_domNode (boxTraces this)
      \<and> distinct (tr_domNode this # concat (map BoxTrace_nodes (boxTraces this)))
      \<and> (\<forall>n \<in> set (concat (map BoxTrace_nodes (boxTraces this))). n < next_node (doc w)))"

section \<open>What a marker shows\<close>

text \<open>
  The visual state of a marker is the object together with the attributes of its nodes.
  \<open>highlighted\<close> and \<open>traced\<close> say that a marker shows a box: the outline path, the
  corner boxes and stroke widths for the given line thickness.
\<close>

definition BoxHighlighting_view ::
  "BoxHighlighting \<Rightarrow> DOM \<Rightarrow> BoxHighlighting \<times> (string \<Rightarrow> string option) list" where
  "BoxHighlighting_view h d = (h, map (attributes d) (BoxHighlighting_nodes h))"

definition BoxTrace_view :: "BoxTrace \<Rightarrow> DOM \<Rightarrow> BoxTrace \<times> (string \<Rightarrow> string option) list" where
  "BoxTrace_view t d = (t, map (attributes d) (BoxTrace_nodes t))"

definition corner_boxes_at :: "(number \<Rightarrow> string) \<Rightarrow> number \<Rightarrow> Box \<Rightarrow> BoxHighlighting \<Rightarrow> DOM \<Rightarrow> bool" where
  "corner_boxes_at str thickness box h d =
     (getAttribute (topLeftCornerBox h) ''d'' d = Some (cornerBoxD str thickness (minX box, minY box))
      \<and> getAttribute (topRightCornerBox h) ''d'' d = Some (cornerBoxD str thickness (maxX box, minY box))
      \<and> getAttribute (bottomRightCornerBox h) ''d'' d = Some (cornerBoxD str thickness (maxX box, maxY box))
      \<and> getAttribute (bottomLeftCornerBox h) ''d'' d = Some (cornerBoxD str thickness (minX box, maxY box)))"

definition stroke_width :: "string \<Rightarrow> node list \<Rightarrow> DOM \<Rightarrow> bool" where
  "stroke_width v eles d = list_all (\<lambda>ele. getAttribute ele ''stroke-width'' d = Some v) eles"

definition highlighted :: "(number \<Rightarrow> string) \<Rightarrow> number \<Rightarrow> Box \<Rightarrow> BoxHighlighting \<Rightarrow> DOM \<Rightarrow> bool" where
  "highlighted str thickness box h d =
     (highlightedBox h = Some box \<and> lineThickness h = thickness
      \<and> getAttribute (boxTrace h) ''d'' d = Some (perimeter_d str box)
      \<and> corner_boxes_at str thickness box h d
      \<and> stroke_width (str thickness) (boxTrace h # cornerBoxes h) d)"

definition traced :: "(number \<Rightarrow> string) \<Rightarrow> Box \<Rightarrow> BoxTrace \<Rightarrow> DOM \<Rightarrow> bool" where
  "traced str box t d =
     (getAttribute (lightDashing t) ''d'' d = Some (perimeter_d str box)
      \<and> getAttribute (darkDashing t) ''d'' d = Some (perimeter_d str box))"

definition opacity :: "node \<Rightarrow> DOM \<Rightarrow> string option" where
  "opacity n d = getAttribute n ''opacity'' d"

text \<open>The visual state of the marker in slot \<open>k\<close> of the pool of a controller.\<close>

definition highlighting_at ::
  "nat \<Rightarrow> LiveSVGElementHighlightings \<times> world \<Rightarrow> BoxHighlighting \<times> (string \<Rightarrow> string option) list" where
  "highlighting_at k s = BoxHighlighting_view (boxHighlightings (fst s) ! k) (doc (snd s))"

definition trace_at ::
  "nat \<Rightarrow> LiveSVGElementTraces \<times> world \<Rightarrow> BoxTrace \<times> (string \<Rightarrow> string option) list" where
  "trace_at k s = BoxTrace_view (boxTraces (fst s) ! k) (doc (snd s))"

text \<open>
  A later state of a controller keeps the markers of an earlier one: the pool is at least as
  long, its first markers are the same objects (the same nodes) in the same order, and the
  controller has the same group node and the same registrations.
\<close>

definition keeps_highlightings ::
  "LiveSVGElementHighlightings \<times> world \<Rightarrow> LiveSVGElementHighlightings \<times> world \<Rightarrow> bool" where
  "keeps_highlightings s s' =
     (length (boxHighlightings (fst s)) \<le> length (boxHighlightings (fst s'))
      \<and> map BoxHighlighting_nodes (take (length (boxHighlightings (fst s))) (boxHighlightings (fst s')))
           = map BoxHighlighting_nodes (boxHighlightings (fst s))
      \<and> domNode (fst s') = domNode (fst s)
      \<and> changeListeners (snd s') = changeListeners (snd s)
      \<and> observers (snd s') = observers (snd s))"

definition keeps_traces ::
  "LiveSVGElementTraces \<times> world \<Rightarrow> LiveSVGElementTraces \<times> world \<Rightarrow> bool" where
  "keeps_traces s s' =
     (length (boxTraces (fst s)) \<le> length (boxTraces (fst s'))
      \<and> take (length (boxTraces (fst s))) (boxTraces (fst s')) = boxTraces (fst s)
      \<and> tr_domNode (fst s') = tr_domNode (fst s)
      \<and> changeListeners (snd s') = changeListeners (snd s)
      \<and> observers (snd s') = observers (snd s))"

text \<open>What the targets of a refresh throw, in the order of the targets.\<close>

definition thrown :: "target list \<Rightarrow> error list" where
  "thrown ts = concat (map (\<lambda>t. case t of Inl e \<Rightarrow> [e] | Inr box \<Rightarrow> []) ts)"

section \<open>Example values\<close>

text \<open>
  A store with two \<^verbatim>\<open>svg\<close> elements, the parent document \<open>0\<close> and an overlaid document
  \<open>1\<close>, and a world around it in which nothing is registered yet.
\<close>

definition example_DOM :: DOM where
  "example_DOM =
     \<lparr>next_node = 2, tagName = [0 \<mapsto> ''svg'', 1 \<mapsto> ''svg''], parentNode = (\<lambda>n. None),
      childNodes = (\<lambda>n. []), attributes = (\<lambda>n name. None), style = (\<lambda>n name. None)\<rparr>"

definition example_world :: world where
  "example_world = \<lparr>doc = example_DOM, console = [], changeListeners = [], observers = []\<rparr>"

definition example_box :: Box where
  "example_box = \<lparr>box_x = - 22, box_y = 84, box_width = 501, box_height = 221\<rparr>"

definition small_box :: Box where
  "small_box = \<lparr>box_x = 0, box_y = 0, box_width = 10, box_height = 10\<rparr>"

text \<open>
  A box highlighting constructed in the example store, its line thickness then set to \<open>1\<close>,
  highlighting the small box; and a box trace constructed there, tracing the example box.
\<close>

definition example_highlighted :: "BoxHighlighting \<times> DOM" where
  "example_highlighted =
     highlight decimal small_box
       (set_lineThickness decimal 1 (projr (BoxHighlighting_new decimal example_DOM)))"

text \<open>
  The two controllers, constructed in the example world for the parent document \<open>0\<close>, and
  their states after a first refresh with three targets.
\<close>

definition example_controller :: "LiveSVGElementHighlightings \<times> world" where
  "example_controller = LiveSVGElementHighlightings_new 0 example_world"

definition example_trace_controller :: "LiveSVGElementTraces \<times> world" where
  "example_trace_controller = LiveSVGElementTraces_new 0 example_world"

definition example_targets :: "target list" where
  "example_targets = [Inr example_box, Inr small_box, Inr small_box]"

definition example_refreshed :: "LiveSVGElementHighlightings \<times> world" where
  "example_refreshed = projr (refresh decimal example_targets 1 example_controller)"

definition example_traces_refreshed :: "LiveSVGElementTraces \<times> world" where
  "example_traces_refreshed = projr (refresh_traces decimal example_targets example_trace_controller)"

definition example_traced :: "BoxTrace \<times> DOM" where
  "example_traced =
     (case projr (BoxTrace_new example_DOM) of (t, d) \<Rightarrow> (t, trace decimal example_box t d))"

section \<open>Properties of the number conversion\<close>

lemma nat_dec_small: "n < 10 \<Longrightarrow> nat_dec n = [digit n]"
  by (subst nat_dec.simps) simp

lemma nat_dec_large: "\<not> n < 10 \<Longrightarrow> nat_dec n = nat_dec (n div 10) @ [digit n]"
  by (subst nat_dec.simps) simp

lemma decimal_of_int: "decimal (of_int k) = (if k < 0 then ''-'' else []) @ nat_dec (nat \<bar>k\<bar>)"
proof -
  have "\<bar>real_of_int k\<bar> = of_int \<bar>k\<bar>" by simp
  then show ?thesis unfolding decimal_def Let_def
    by (simp only: floor_of_int of_int_less_0_iff) simp
qed

lemma decimal_numeral: "decimal (numeral k) = nat_dec (numeral k)"
  using decimal_of_int[of "numeral k"] by simp

lemma decimal_neg_numeral: "decimal (- numeral k) = CHR ''-'' # nat_dec (numeral k)"
  using decimal_of_int[of "- numeral k"] by simp

lemma decimal_0: "decimal 0 = ''0''"
  using decimal_of_int[of 0] by (simp add: nat_dec_small digit_def)

lemma decimal_1: "decimal 1 = ''1''"
  using decimal_of_int[of 1] by (simp add: nat_dec_small digit_def)

lemmas decimal_simps = decimal_numeral decimal_neg_numeral decimal_0 decimal_1
  nat_dec_small nat_dec_large digit_def



lemma frac_dec_numeral:
  "frac_dec (numeral k) f =
     (if f = 0 then [] else digit (nat \<lfloor>10 * f\<rfloor>) # frac_dec (pred_numeral k) (10 * f - of_int \<lfloor>10 * f\<rfloor>))"
  by (subst numeral_eq_Suc) (simp only: frac_dec.simps)

lemma decimal_half: "decimal 0.5 = ''0.5''"
  by (simp add: decimal_def Let_def nat_dec_small digit_def frac_dec_numeral)



subsection \<open>Attributes\<close>

lemma setAttribute_sel [simp]:
  "next_node (setAttribute n k v d) = next_node d"
  "tagName (setAttribute n k v d) = tagName d"
  "parentNode (setAttribute n k v d) = parentNode d"
  "childNodes (setAttribute n k v d) = childNodes d"
  "style (setAttribute n k v d) = style d"
  by (simp_all add: setAttribute_def)

lemma attributes_setAttribute_same [simp]:
  "attributes (setAttribute n k v d) n = (attributes d n)(k \<mapsto> v)"
  by (simp add: setAttribute_def)

lemma attributes_setAttribute_other [simp]:
  "m \<noteq> n \<Longrightarrow> attributes (setAttribute n k v d) m = attributes d m"
  by (simp add: setAttribute_def)

lemma getAttribute_setAttribute_same [simp]:
  "getAttribute n k (setAttribute n k v d) = Some v"
  by (simp add: getAttribute_def)

lemma getAttribute_setAttribute_node [simp]:
  "n \<noteq> m \<Longrightarrow> getAttribute n k (setAttribute m j v d) = getAttribute n k d"
  by (simp add: getAttribute_def)

lemma getAttribute_setAttribute_name [simp]:
  "k \<noteq> j \<Longrightarrow> getAttribute n k (setAttribute m j v d) = getAttribute n k d"
  by (cases "n = m") (simp_all add: getAttribute_def)

lemma setAttributes_Nil [simp]: "setAttributes [] d = d"
  by (simp add: setAttributes_def)

lemma setAttributes_Cons [simp]:
  "setAttributes ((n, k, v) # kvs) d = setAttributes kvs (setAttribute n k v d)"
  by (simp add: setAttributes_def)

lemma setAttributes_append: "setAttributes (xs @ ys) d = setAttributes ys (setAttributes xs d)"
  by (simp add: setAttributes_def)

lemma setAttributes_sel [simp]:
  "next_node (setAttributes kvs d) = next_node d"
  "tagName (setAttributes kvs d) = tagName d"
  "parentNode (setAttributes kvs d) = parentNode d"
  "childNodes (setAttributes kvs d) = childNodes d"
  "style (setAttributes kvs d) = style d"
  by (induction kvs arbitrary: d; simp add: split_paired_all)+

lemma attributes_setAttributes_other:
  "m \<notin> fst ` set kvs \<Longrightarrow> attributes (setAttributes kvs d) m = attributes d m"
proof (induction kvs arbitrary: d)
  case Nil
  show ?case by simp
next
  case (Cons x kvs)
  obtain n k v where x: "x = (n, k, v)" by (cases x)
  from Cons.prems have "m \<noteq> n" "m \<notin> fst ` set kvs" by (simp_all add: x)
  then show ?case by (simp add: x Cons.IH)
qed

lemma getAttribute_setAttributes_name:
  "k \<notin> (fst \<circ> snd) ` set kvs \<Longrightarrow> getAttribute n k (setAttributes kvs d) = getAttribute n k d"
proof (induction kvs arbitrary: d)
  case Nil
  show ?case by simp
next
  case (Cons x kvs)
  obtain m j v where x: "x = (m, j, v)" by (cases x)
  from Cons.prems have "k \<noteq> j" "k \<notin> (fst \<circ> snd) ` set kvs" by (simp_all add: x)
  then show ?case by (simp add: x Cons.IH)
qed

lemma matching_id [simp]: "matching b = b"
  by (simp add: matching_def)

subsection \<open>Paths\<close>

lemma perimeter_d_path: "perimeter_d str box = path_d str (perimeter_path box)"
  by (simp add: perimeter_d_def perimeter_path_def)

lemma cornerBoxD_path: "cornerBoxD str t c = path_d str (cornerBox_path t c)"
  by (simp add: cornerBoxD_def cornerBox_path_def)

lemma vertices_perimeter: "vertices (perimeter_path box) = corners box"
  by (simp add: vertices_def perimeter_path_def corners_def minX_def maxX_def minY_def maxY_def)

lemma vertices_cornerBox: "vertices (cornerBox_path t (a, b)) =
   [(a - 2 * sqrt t, b - 2 * sqrt t), (a, b - 2 * sqrt t), (a, b), (a - 2 * sqrt t, b)]"
  by (simp add: vertices_def cornerBox_path_def)

lemma center_cornerBox: "center (vertices (cornerBox_path t (a, b))) = (a - sqrt t, b - sqrt t)"
  by (simp add: vertices_cornerBox center_def field_simps)

lemma perimeter_d_example:
  assumes "prints_integers str"
  shows "perimeter_d str example_box = ''M -22 84 h 501 v 221 h -501 z''"
proof -
  have s: "str (of_int k) = decimal (of_int k)" if "\<bar>k\<bar> < 10 ^ 21" for k :: int
    using assms that by (simp add: prints_integers_def)
  have "str (- 22) = decimal (- 22)" "str 84 = decimal 84" "str 501 = decimal 501"
    "str 221 = decimal 221" "str (- 501) = decimal (- 501)"
    using s[of "- 22"] s[of 84] s[of 501] s[of 221] s[of "- 501"] by simp_all
  then show ?thesis
    by (simp add: perimeter_d_def example_box_def decimal_simps)
qed

subsection \<open>The box trace\<close>

lemma trace_sel [simp]:
  "next_node (trace str box t d) = next_node d"
  "tagName (trace str box t d) = tagName d"
  "parentNode (trace str box t d) = parentNode d"
  "childNodes (trace str box t d) = childNodes d"
  "style (trace str box t d) = style d"
  by (simp_all add: trace_def Let_def)

lemma trace_d:
  "getAttribute (lightDashing t) ''d'' (trace str box t d) = Some (perimeter_d str box)"
  "getAttribute (darkDashing t) ''d'' (trace str box t d) = Some (perimeter_d str box)"
  by (cases "lightDashing t = darkDashing t"; simp add: trace_def Let_def)+

lemma trace_idem: "trace str box t (trace str box t d) = trace str box t d"
  by (simp add: trace_def setAttribute_def Let_def)

lemma setThickness_width:
  "getAttribute (lightDashing t) ''stroke-width'' (setThickness str th t d) = Some (str th)"
  "getAttribute (darkDashing t) ''stroke-width'' (setThickness str th t d) = Some (str th)"
  by (cases "lightDashing t = darkDashing t"; simp add: setThickness_def)+

lemma setThickness_other:
  "k \<noteq> ''stroke-width'' \<Longrightarrow> getAttribute n k (setThickness str th t d) = getAttribute n k d"
  by (simp add: setThickness_def)


subsection \<open>The box highlighting\<close>

lemma BoxHighlighting_ok_neq:
  assumes "BoxHighlighting_ok h"
  shows "bh_domNode h \<noteq> boxTrace h" "bh_domNode h \<noteq> topLeftCornerBox h"
    "bh_domNode h \<noteq> topRightCornerBox h" "bh_domNode h \<noteq> bottomRightCornerBox h"
    "bh_domNode h \<noteq> bottomLeftCornerBox h"
    "boxTrace h \<noteq> topLeftCornerBox h" "boxTrace h \<noteq> topRightCornerBox h"
    "boxTrace h \<noteq> bottomRightCornerBox h" "boxTrace h \<noteq> bottomLeftCornerBox h"
    "topLeftCornerBox h \<noteq> topRightCornerBox h" "topLeftCornerBox h \<noteq> bottomRightCornerBox h"
    "topLeftCornerBox h \<noteq> bottomLeftCornerBox h"
    "topRightCornerBox h \<noteq> bottomRightCornerBox h" "topRightCornerBox h \<noteq> bottomLeftCornerBox h"
    "bottomRightCornerBox h \<noteq> bottomLeftCornerBox h"
  using assms by (simp_all add: BoxHighlighting_ok_def BoxHighlighting_nodes_def cornerBoxes_def)

lemmas BoxHighlighting_ok_neqs = BoxHighlighting_ok_neq BoxHighlighting_ok_neq[symmetric]

lemma highlight_eq:
  "highlight str box (h, d) =
     (h\<lparr>highlightedBox := Some box\<rparr>,
      setAttributes
        [(boxTrace h, ''d'', perimeter_d str box),
         (topLeftCornerBox h, ''d'', cornerBoxD str (lineThickness h) (minX box, minY box)),
         (topRightCornerBox h, ''d'', cornerBoxD str (lineThickness h) (maxX box, minY box)),
         (bottomRightCornerBox h, ''d'', cornerBoxD str (lineThickness h) (maxX box, maxY box)),
         (bottomLeftCornerBox h, ''d'', cornerBoxD str (lineThickness h) (minX box, maxY box))]
        d)"
  by (simp only: highlight.simps Let_def matching_id)

lemma set_lineThickness_eq:
  "set_lineThickness str th (h, d) =
     (let h1 = h\<lparr>lineThickness := th\<rparr>;
          d1 = setAttributes
                 [(boxTrace h, ''stroke-width'', str th),
                  (topLeftCornerBox h, ''stroke-width'', str th),
                  (topRightCornerBox h, ''stroke-width'', str th),
                  (bottomRightCornerBox h, ''stroke-width'', str th),
                  (bottomLeftCornerBox h, ''stroke-width'', str th)] d
      in case highlightedBox h of Some box \<Rightarrow> highlight str box (h1, d1) | None \<Rightarrow> (h1, d1))"
  by (simp add: Let_def cornerBoxes_def split: option.split)

declare highlight.simps [simp del] set_lineThickness.simps [simp del]

lemma highlight_fst: "fst (highlight str box (h, d)) = h\<lparr>highlightedBox := Some box\<rparr>"
  by (simp add: highlight_eq)

lemma highlight_sel [simp]:
  "next_node (snd (highlight str box (h, d))) = next_node d"
  "tagName (snd (highlight str box (h, d))) = tagName d"
  "parentNode (snd (highlight str box (h, d))) = parentNode d"
  "childNodes (snd (highlight str box (h, d))) = childNodes d"
  "style (snd (highlight str box (h, d))) = style d"
  by (simp_all add: highlight_eq del: setAttributes_Cons)

lemma highlight_other_node:
  "n \<notin> set (BoxHighlighting_nodes h) \<Longrightarrow> attributes (snd (highlight str box (h, d))) n = attributes d n"
  by (simp add: highlight_eq attributes_setAttributes_other BoxHighlighting_nodes_def cornerBoxes_def
        del: setAttributes_Cons)

lemma highlight_other_name:
  "k \<noteq> ''d'' \<Longrightarrow> getAttribute n k (snd (highlight str box (h, d))) = getAttribute n k d"
  by (simp add: highlight_eq getAttribute_setAttributes_name del: setAttributes_Cons)

lemma highlight_d:
  assumes "BoxHighlighting_ok h"
  shows "getAttribute (boxTrace h) ''d'' (snd (highlight str box (h, d))) = Some (perimeter_d str box)"
    and "getAttribute (topLeftCornerBox h) ''d'' (snd (highlight str box (h, d)))
           = Some (cornerBoxD str (lineThickness h) (minX box, minY box))"
    and "getAttribute (topRightCornerBox h) ''d'' (snd (highlight str box (h, d)))
           = Some (cornerBoxD str (lineThickness h) (maxX box, minY box))"
    and "getAttribute (bottomRightCornerBox h) ''d'' (snd (highlight str box (h, d)))
           = Some (cornerBoxD str (lineThickness h) (maxX box, maxY box))"
    and "getAttribute (bottomLeftCornerBox h) ''d'' (snd (highlight str box (h, d)))
           = Some (cornerBoxD str (lineThickness h) (minX box, maxY box))"
  by (simp_all add: highlight_eq BoxHighlighting_ok_neqs[OF assms])


lemma attributes_setAttributes:
  "attributes (setAttributes kvs d) n k =
     (case map_of (rev (map (\<lambda>(n, k, v). ((n, k), v)) kvs)) (n, k) of
        None \<Rightarrow> attributes d n k | Some v \<Rightarrow> Some v)"
proof (induction kvs arbitrary: d)
  case Nil
  show ?case by simp
next
  case (Cons x kvs)
  obtain m j v where x: "x = (m, j, v)" by (cases x)
  show ?case
    by (simp add: x Cons.IH map_add_def setAttribute_def split: option.split)
qed

lemma setAttributes_idem: "setAttributes kvs (setAttributes kvs d) = setAttributes kvs d"
proof (rule DOM.equality)
  show "attributes (setAttributes kvs (setAttributes kvs d)) = attributes (setAttributes kvs d)"
    by (rule ext, rule ext) (simp add: attributes_setAttributes split: option.split)
qed simp_all

lemma highlight_idem: "highlight str box (highlight str box (h, d)) = highlight str box (h, d)"
  by (simp add: highlight_eq setAttributes_idem del: setAttributes_Cons)


subsection \<open>Structure of the store\<close>

lemma dom_ok_fresh:
  "dom_ok d \<Longrightarrow> next_node d \<le> n \<Longrightarrow> parentNode d n = None"
  "dom_ok d \<Longrightarrow> next_node d \<le> n \<Longrightarrow> childNodes d n = []"
  by (simp_all add: dom_ok_def)

lemma and_then_Inr [simp]: "and_then (Inr a) f = f a"
  by (simp add: and_then_def)

lemma and_then_Inl [simp]: "and_then (Inl e) f = Inl e"
  by (simp add: and_then_def)

lemma setStyle_sel [simp]:
  "next_node (setStyle n k v d) = next_node d"
  "tagName (setStyle n k v d) = tagName d"
  "parentNode (setStyle n k v d) = parentNode d"
  "childNodes (setStyle n k v d) = childNodes d"
  "attributes (setStyle n k v d) = attributes d"
  by (simp_all add: setStyle_def)

lemma appendChild_parentless:
  assumes "container < next_node d" "n < next_node d" "parentNode d n = None"
    and "\<not> inclusive_ancestor (next_node d) (parentNode d) n container"
  shows "appendChild container n d =
     Inr (d\<lparr>parentNode := (parentNode d)(n \<mapsto> container),
            childNodes := (childNodes d)(container := childNodes d container @ [n])\<rparr>)"
  using assms by (simp add: appendChild_def remove_node_def)


lemma inclusive_ancestor_old:
  assumes "\<And>m p. m < N \<Longrightarrow> par m = Some p \<Longrightarrow> p < N" and "c < N" and "N \<le> a"
  shows "\<not> inclusive_ancestor k par a c"
  using assms(2)
proof (induction k arbitrary: c)
  case 0
  then show ?case using assms(3) by simp
next
  case (Suc k)
  show ?case
  proof (cases "par c")
    case None
    then show ?thesis using Suc.prems assms(3) by simp
  next
    case (Some p)
    then have "p < N" using assms(1) Suc.prems by blast
    then show ?thesis using Suc.IH Some Suc.prems assms(3) by simp
  qed
qed

lemma dom_ok_parent_exists: "dom_ok d \<Longrightarrow> parentNode d m = Some p \<Longrightarrow> p < next_node d"
proof (rule ccontr)
  assume ok: "dom_ok d" and par: "parentNode d m = Some p" and "\<not> p < next_node d"
  then have "childNodes d p = []" by (simp add: dom_ok_def)
  moreover from ok par have "m \<in> set (childNodes d p)" by (simp add: dom_ok_def)
  ultimately show False by simp
qed

lemma BoxHighlighting_new_eq:
  assumes "dom_ok d" and N: "N = next_node d"
  shows "\<exists>d'. BoxHighlighting_new str d =
     Inr (\<lparr>bh_domNode = N, boxTrace = Suc N, topLeftCornerBox = Suc (Suc N),
           topRightCornerBox = Suc (Suc (Suc N)), bottomRightCornerBox = Suc (Suc (Suc (Suc N))),
           bottomLeftCornerBox = Suc (Suc (Suc (Suc (Suc N)))), lineThickness = 0.5,
           highlightedBox = None\<rparr>, d')
     \<and> next_node d' = Suc (Suc (Suc (Suc (Suc (Suc N)))))
     \<and> parentNode d' = (parentNode d)
          (Suc N \<mapsto> N, Suc (Suc N) \<mapsto> N, Suc (Suc (Suc N)) \<mapsto> N,
           Suc (Suc (Suc (Suc N))) \<mapsto> N, Suc (Suc (Suc (Suc (Suc N)))) \<mapsto> N)
     \<and> childNodes d' = (childNodes d)
          (N := [Suc N, Suc (Suc N), Suc (Suc (Suc N)), Suc (Suc (Suc (Suc N))),
                 Suc (Suc (Suc (Suc (Suc N))))])
     \<and> (\<forall>n < N. attributes d' n = attributes d n)"
proof -
  have fresh: "parentNode d n = None" "childNodes d n = []" if "N \<le> n" for n
    using dom_ok_fresh[OF assms(1)] that by (simp_all add: N)
  show ?thesis
    unfolding N[symmetric]
    by (simp add: BoxHighlighting_new_def createElementNS_def N[symmetric] cornerBoxes_def
        appendChild_def remove_node_def fresh Let_def)
qed

lemma BoxTrace_new_eq:
  assumes "dom_ok d" and N: "N = next_node d"
  shows "\<exists>d'. BoxTrace_new d =
     Inr (\<lparr>bt_domNode = N, lightDashing = Suc N, darkDashing = Suc (Suc N)\<rparr>, d')
     \<and> next_node d' = Suc (Suc (Suc N))
     \<and> parentNode d' = (parentNode d)(Suc N \<mapsto> N, Suc (Suc N) \<mapsto> N)
     \<and> childNodes d' = (childNodes d)(N := [Suc N, Suc (Suc N)])
     \<and> (\<forall>n < N. attributes d' n = attributes d n)"
proof -
  have fresh: "parentNode d n = None" "childNodes d n = []" if "N \<le> n" for n
    using dom_ok_fresh[OF assms(1)] that by (simp_all add: N)
  show ?thesis
    unfolding N[symmetric]
    by (simp add: BoxTrace_new_def createElementNS_def N[symmetric]
        appendChild_def remove_node_def fresh Let_def)
qed

subsection \<open>Loops\<close>

lemma forEach_from_inv:
  assumes "\<And>a j s. I s \<Longrightarrow> I (f a j s)" and "I s"
  shows "I (forEach_from i f as s)"
  using assms(2) by (induction as arbitrary: i s) (simp_all add: assms(1))

lemma forEach_from_frame:
  assumes inv: "\<And>a j s. I s \<Longrightarrow> I (f a j s)"
    and frame: "\<And>a j s. I s \<Longrightarrow> j \<noteq> k \<Longrightarrow> V (f a j s) = V s"
    and "I s" and "k < i \<or> i + length as \<le> k"
  shows "V (forEach_from i f as s) = V s"
  using assms(3,4)
proof (induction as arbitrary: i s)
  case Nil
  show ?case by simp
next
  case (Cons a as)
  have "V (forEach_from (Suc i) f as (f a i s)) = V (f a i s)"
    using Cons.prems by (intro Cons.IH inv) auto
  also have "\<dots> = V s"
    using Cons.prems by (intro frame) auto
  finally show ?case by simp
qed

lemma forEach_from_at:
  assumes inv: "\<And>a j s. I s \<Longrightarrow> I (f a j s)"
    and frame: "\<And>a j s. I s \<Longrightarrow> j \<noteq> k \<Longrightarrow> V (f a j s) = V s"
    and "I s" and "i \<le> k" and "k < i + length as"
  shows "\<exists>s0. I s0 \<and> V s0 = V s \<and> V (forEach_from i f as s) = V (f (as ! (k - i)) k s0)"
  using assms(3,4,5)
proof (induction as arbitrary: i s)
  case Nil
  then show ?case by simp
next
  case (Cons a as)
  show ?case
  proof (cases "k = i")
    case True
    have "V (forEach_from (Suc i) f as (f a i s)) = V (f a i s)"
      using Cons.prems True by (intro forEach_from_frame[where I = I] inv frame) auto
    then show ?thesis using True Cons.prems by auto
  next
    case False
    then have "Suc i \<le> k" "k < Suc i + length as" using Cons.prems by auto
    from Cons.IH[OF inv[OF Cons.prems(1)] this]
    obtain s0 where s0: "I s0" "V s0 = V (f a i s)"
      "V (forEach_from (Suc i) f as (f a i s)) = V (f (as ! (k - Suc i)) k s0)"
      by blast
    have "V (f a i s) = V s" using Cons.prems False by (intro frame) auto
    moreover have "(a # as) ! (k - i) = as ! (k - Suc i)"
      using False Cons.prems by (simp add: nth_Cons')
    ultimately show ?thesis using s0 by auto
  qed
qed

subsection \<open>The store stays a forest\<close>

lemma dom_ok_cong:
  "next_node d' = next_node d \<Longrightarrow> parentNode d' = parentNode d \<Longrightarrow> childNodes d' = childNodes d
     \<Longrightarrow> dom_ok d' = dom_ok d"
  by (simp add: dom_ok_def)

lemma dom_ok_createElementNS: "dom_ok d \<Longrightarrow> dom_ok (snd (createElementNS ns name d))"
  by (simp add: dom_ok_def createElementNS_def)

lemma dom_ok_remove_node:
  assumes "dom_ok d"
  shows "dom_ok (remove_node n d)"
proof (cases "parentNode d n")
  case None
  then show ?thesis using assms by (simp add: remove_node_def)
next
  case (Some p)
  have dist: "distinct (childNodes d q)" for q using assms by (simp add: dom_ok_def)
  have par: "parentNode d m = Some q \<longleftrightarrow> m \<in> set (childNodes d q)" for m q
    using assms by (simp add: dom_ok_def)
  have fresh: "parentNode d m = None \<and> childNodes d m = []" if "next_node d \<le> m" for m
    using assms that by (simp add: dom_ok_def)
  have eq: "remove_node n d = d\<lparr>parentNode := (parentNode d)(n := None),
      childNodes := (childNodes d)(p := remove1 n (childNodes d p))\<rparr>"
    using Some by (simp add: remove_node_def)
  have np: "n \<in> set (childNodes d p)" using Some par by simp
  have uniq: "q = q'" if "m \<in> set (childNodes d q)" "m \<in> set (childNodes d q')" for m q q'
    using that par[of m q] par[of m q'] by simp
  show ?thesis
    unfolding dom_ok_def eq
    using np dist par fresh uniq[of n] by auto
qed

lemma remove_node_detached:
  assumes "dom_ok d"
  shows "parentNode (remove_node n d) n = None" and "n \<notin> set (childNodes (remove_node n d) p)"
proof -
  show "parentNode (remove_node n d) n = None"
    by (cases "parentNode d n") (simp_all add: remove_node_def)
  moreover have "parentNode (remove_node n d) n = Some p \<longleftrightarrow> n \<in> set (childNodes (remove_node n d) p)"
    using dom_ok_remove_node[OF assms, of n] unfolding dom_ok_def by blast
  ultimately show "n \<notin> set (childNodes (remove_node n d) p)"
    by simp
qed

lemma remove_node_sel [simp]:
  "next_node (remove_node n d) = next_node d"
  "tagName (remove_node n d) = tagName d"
  "attributes (remove_node n d) = attributes d"
  "style (remove_node n d) = style d"
  by (cases "parentNode d n"; simp add: remove_node_def)+

lemma appendChild_Inr:
  assumes "appendChild c n d = Inr d'"
  shows "c < next_node d" "n < next_node d"
    "\<not> inclusive_ancestor (next_node d) (parentNode d) n c"
    "d' = (remove_node n d)\<lparr>parentNode := (parentNode (remove_node n d))(n \<mapsto> c),
            childNodes := (childNodes (remove_node n d))(c := childNodes (remove_node n d) c @ [n])\<rparr>"
  using assms by (auto simp add: appendChild_def Let_def split: if_splits)

lemma dom_ok_appendChild:
  assumes "dom_ok d" and "appendChild c n d = Inr d'"
  shows "dom_ok d'"
proof -
  define d1 where "d1 = remove_node n d"
  note a = appendChild_Inr[OF assms(2), folded d1_def]
  have ok1: "dom_ok d1" unfolding d1_def by (rule dom_ok_remove_node[OF assms(1)])
  have det: "parentNode d1 n = None" "\<And>p. n \<notin> set (childNodes d1 p)"
    unfolding d1_def by (rule remove_node_detached[OF assms(1)])+
  have dist: "distinct (childNodes d1 q)" for q using ok1 by (simp add: dom_ok_def)
  have par: "parentNode d1 m = Some q \<longleftrightarrow> m \<in> set (childNodes d1 q)" for m q
    using ok1 by (simp add: dom_ok_def)
  have fresh: "parentNode d1 m = None \<and> childNodes d1 m = []" if "next_node d \<le> m" for m
    using ok1 that by (simp add: dom_ok_def d1_def)
  have nn: "next_node d1 = next_node d" by (simp add: d1_def)
  show ?thesis
    unfolding dom_ok_def a(4)
    using det dist par fresh a(1,2) nn by auto
qed

subsection \<open>Creating markers\<close>

lemma dom_ok_new_group:
  assumes "dom_ok d" and "next_node d = N" and "N < next_node d'"
    and "\<forall>c \<in> set cs. N < c \<and> c < next_node d'" and "distinct cs"
    and  "childNodes d' = (childNodes d)(N := cs)"
    and  "parentNode d' = (\<lambda>n. if n \<in> set cs then Some N else parentNode d n)"
  shows "dom_ok d'"
proof -
  have dist: "distinct (childNodes d q)" for q using assms(1) by (simp add: dom_ok_def)
  have par: "parentNode d m = Some q \<longleftrightarrow> m \<in> set (childNodes d q)" for m q
    using assms(1) by (simp add: dom_ok_def)
  have fresh: "parentNode d m = None" "childNodes d m = []" if "N \<le> m" for m
    using assms(1,2) that by (simp_all add: dom_ok_def)
  have old: "m < N" if "m \<in> set (childNodes d q)" for m q
    using that par[of m q] fresh(1)[of m] by (cases "m < N") auto
  show ?thesis
    unfolding dom_ok_def assms(6,7)
  proof (intro conjI allI impI)
    fix n p
    show "((if n \<in> set cs then Some N else parentNode d n) = Some p) = (n \<in> set (((childNodes d)(N := cs)) p))"
      using assms(4) old[of n p] par[of n p] fresh(2)[of N] by (cases "n \<in> set cs"; cases "p = N") auto
  next
    fix p show "distinct (((childNodes d)(N := cs)) p)" using dist assms(5) by simp
  next
    fix n assume "next_node d' \<le> n"
    then show "(if n \<in> set cs then Some N else parentNode d n) = None"
      using assms(3,4) fresh(1)[of n] by auto
  next
    fix n assume "next_node d' \<le> n"
    then show "((childNodes d)(N := cs)) n = []"
      using assms(3) fresh(2)[of n] by auto
  qed
qed

lemma BoxHighlighting_new_ok:
  assumes "dom_ok d" and N: "N = next_node d"
  shows "\<exists>h d'. BoxHighlighting_new str d = Inr (h, d')
     \<and> BoxHighlighting_nodes h =
         [N, Suc N, Suc (Suc N), Suc (Suc (Suc N)), Suc (Suc (Suc (Suc N))), Suc (Suc (Suc (Suc (Suc N))))]
     \<and> lineThickness h = 0.5 \<and> highlightedBox h = None
     \<and> dom_ok d'
     \<and> next_node d' = Suc (Suc (Suc (Suc (Suc (Suc N)))))
     \<and> (\<forall>n < N. parentNode d' n = parentNode d n \<and> childNodes d' n = childNodes d n
                 \<and> attributes d' n = attributes d n)
     \<and> parentNode d' N = None"
proof -
  from BoxHighlighting_new_eq[OF assms, of str] obtain d' where
    d': "BoxHighlighting_new str d =
     Inr (\<lparr>bh_domNode = N, boxTrace = Suc N, topLeftCornerBox = Suc (Suc N),
           topRightCornerBox = Suc (Suc (Suc N)), bottomRightCornerBox = Suc (Suc (Suc (Suc N))),
           bottomLeftCornerBox = Suc (Suc (Suc (Suc (Suc N)))), lineThickness = 0.5,
           highlightedBox = None\<rparr>, d')"
     "next_node d' = Suc (Suc (Suc (Suc (Suc (Suc N)))))"
     "parentNode d' = (parentNode d)
          (Suc N \<mapsto> N, Suc (Suc N) \<mapsto> N, Suc (Suc (Suc N)) \<mapsto> N,
           Suc (Suc (Suc (Suc N))) \<mapsto> N, Suc (Suc (Suc (Suc (Suc N)))) \<mapsto> N)"
     "childNodes d' = (childNodes d)
          (N := [Suc N, Suc (Suc N), Suc (Suc (Suc N)), Suc (Suc (Suc (Suc N))),
                 Suc (Suc (Suc (Suc (Suc N))))])"
     "\<forall>n < N. attributes d' n = attributes d n"
    by blast
  have "dom_ok d'"
    by (rule dom_ok_new_group[OF assms(1) N[symmetric], where cs = "[Suc N, Suc (Suc N), Suc (Suc (Suc N)), Suc (Suc (Suc (Suc N))),
                 Suc (Suc (Suc (Suc (Suc N))))]"])
       (auto simp add: d')
  moreover have "parentNode d N = None" using dom_ok_fresh(1)[OF assms(1)] N by simp
  ultimately show ?thesis
    using d' by (simp add: BoxHighlighting_nodes_def cornerBoxes_def)
qed


lemma create_boxHighlighting_ok:
  assumes ok: "highlightings_ok (this, w)"
  shows "\<exists>h d'. create_boxHighlighting str e i (this, w) =
            Inr (this\<lparr>boxHighlightings := boxHighlightings this @ [h]\<rparr>, w\<lparr>doc := d'\<rparr>)
      \<and> highlightings_ok (this\<lparr>boxHighlightings := boxHighlightings this @ [h]\<rparr>, w\<lparr>doc := d'\<rparr>)
      \<and> next_node (doc w) \<le> next_node d'
      \<and> (\<forall>n < next_node (doc w). attributes d' n = attributes (doc w) n)
      \<and> (\<forall>n < next_node (doc w). parentNode d' n = parentNode (doc w) n)
      \<and> (\<forall>n < next_node (doc w). n \<noteq> domNode this \<longrightarrow> childNodes d' n = childNodes (doc w) n)
      \<and> lineThickness h = 0.5 \<and> highlightedBox h = None"
proof -
  define N where "N = next_node (doc w)"
  define r where "r = domNode this"
  from ok have dok: "dom_ok (doc w)" and rN: "r < N"
    and kids: "childNodes (doc w) r = map bh_domNode (boxHighlightings this)"
    and dist: "distinct (r # concat (map BoxHighlighting_nodes (boxHighlightings this)))"
    and bound: "\<forall>n \<in> set (concat (map BoxHighlighting_nodes (boxHighlightings this))). n < N"
    by (simp_all add: N_def r_def)
  from BoxHighlighting_new_ok[OF dok N_def, of str] obtain h d7 where
    new: "BoxHighlighting_new str (doc w) = Inr (h, d7)"
    and nodes: "BoxHighlighting_nodes h =
         [N, Suc N, Suc (Suc N), Suc (Suc (Suc N)), Suc (Suc (Suc (Suc N))), Suc (Suc (Suc (Suc (Suc N))))]"
    and h: "lineThickness h = 0.5" "highlightedBox h = None"
    and ok7: "dom_ok d7"
    and next7: "next_node d7 = Suc (Suc (Suc (Suc (Suc (Suc N)))))"
    and old7: "\<forall>n < N. parentNode d7 n = parentNode (doc w) n \<and> childNodes d7 n = childNodes (doc w) n
                 \<and> attributes d7 n = attributes (doc w) n"
    and parN: "parentNode d7 N = None"
    by blast
  have g: "bh_domNode h = N" using nodes by (simp add: BoxHighlighting_nodes_def)
  have "\<not> inclusive_ancestor (next_node d7) (parentNode d7) N r"
  proof (rule inclusive_ancestor_old[where N = N])
    fix m p assume "m < N" "parentNode d7 m = Some p"
    then have "parentNode (doc w) m = Some p" using old7 by simp
    then show "p < N" using dom_ok_parent_exists[OF dok] by (simp add: N_def)
  qed (use rN in simp_all)
  then have app: "appendChild r N d7 =
     Inr (d7\<lparr>parentNode := (parentNode d7)(N \<mapsto> r),
            childNodes := (childNodes d7)(r := childNodes d7 r @ [N])\<rparr>)"
    using rN parN by (intro appendChild_parentless) (simp_all add: next7)
  define d' where "d' = d7\<lparr>parentNode := (parentNode d7)(N \<mapsto> r),
            childNodes := (childNodes d7)(r := childNodes d7 r @ [N])\<rparr>"
  have ok': "dom_ok d'" using dom_ok_appendChild[OF ok7 app] by (simp add: d'_def)
  have eq: "create_boxHighlighting str e i (this, w) =
            Inr (this\<lparr>boxHighlightings := boxHighlightings this @ [h]\<rparr>, w\<lparr>doc := d'\<rparr>)"
    using new app by (simp add: BoxHighlighting_appendTo_def g r_def d'_def)
  have oldN: "n < N" if "n \<in> set (concat (map BoxHighlighting_nodes (boxHighlightings this)))" for n
    using bound that by blast
  have newN: "N \<le> n" if "n \<in> set (BoxHighlighting_nodes h)" for n
    using that by (auto simp add: nodes)
  have disj: "set (concat (map BoxHighlighting_nodes (boxHighlightings this))) \<inter> set (BoxHighlighting_nodes h) = {}"
    using oldN newN by fastforce
  have rh: "r \<notin> set (BoxHighlighting_nodes h)" using newN rN by fastforce
  have dh: "distinct (BoxHighlighting_nodes h)" by (simp add: nodes)
  have inv: "highlightings_ok (this\<lparr>boxHighlightings := boxHighlightings this @ [h]\<rparr>, w\<lparr>doc := d'\<rparr>)"
    unfolding highlightings_ok.simps
  proof (intro conjI)
    show "dom_ok (doc (w\<lparr>doc := d'\<rparr>))" using ok' by simp
    show "domNode (this\<lparr>boxHighlightings := boxHighlightings this @ [h]\<rparr>) < next_node (doc (w\<lparr>doc := d'\<rparr>))"
      using rN by (simp add: d'_def next7 r_def)
    show "childNodes (doc (w\<lparr>doc := d'\<rparr>)) (domNode (this\<lparr>boxHighlightings := boxHighlightings this @ [h]\<rparr>))
          = map bh_domNode (boxHighlightings (this\<lparr>boxHighlightings := boxHighlightings this @ [h]\<rparr>))"
      using rN kids old7 by (simp add: d'_def g r_def)
    show "distinct (domNode (this\<lparr>boxHighlightings := boxHighlightings this @ [h]\<rparr>) #
            concat (map BoxHighlighting_nodes (boxHighlightings (this\<lparr>boxHighlightings := boxHighlightings this @ [h]\<rparr>))))"
      using dist disj rh dh by (simp add: r_def)
    show "\<forall>n\<in>set (concat (map BoxHighlighting_nodes (boxHighlightings (this\<lparr>boxHighlightings := boxHighlightings this @ [h]\<rparr>)))).
            n < next_node (doc (w\<lparr>doc := d'\<rparr>))"
    proof
      fix n assume "n \<in> set (concat (map BoxHighlighting_nodes (boxHighlightings (this\<lparr>boxHighlightings := boxHighlightings this @ [h]\<rparr>))))"
      then have "n \<in> set (concat (map BoxHighlighting_nodes (boxHighlightings this))) \<or> n \<in> set (BoxHighlighting_nodes h)"
        by auto
      then show "n < next_node (doc (w\<lparr>doc := d'\<rparr>))"
      proof
        assume "n \<in> set (concat (map BoxHighlighting_nodes (boxHighlightings this)))"
        then have "n < N" by (rule oldN)
        then show ?thesis by (simp add: d'_def next7)
      next
        assume "n \<in> set (BoxHighlighting_nodes h)"
        then show ?thesis by (auto simp add: d'_def next7 nodes)
      qed
    qed
  qed
  show ?thesis
    using eq inv h old7 rN
    by (intro exI[of _ h] exI[of _ d']) (auto simp add: d'_def next7 N_def[symmetric] r_def[symmetric])
qed

lemma set_lineThickness_fst:
  "fst (set_lineThickness str th (h, d)) = h\<lparr>lineThickness := th\<rparr>"
proof (cases "highlightedBox h")
  case None
  then show ?thesis by (simp add: set_lineThickness_eq Let_def)
next
  case (Some box)
  have "h\<lparr>lineThickness := th, highlightedBox := Some box\<rparr> = h\<lparr>lineThickness := th\<rparr>"
    using Some by (cases h) simp
  then show ?thesis using Some by (simp add: set_lineThickness_eq Let_def highlight_eq del: setAttributes_Cons)
qed

lemma set_lineThickness_sel [simp]:
  "next_node (snd (set_lineThickness str th (h, d))) = next_node d"
  "tagName (snd (set_lineThickness str th (h, d))) = tagName d"
  "parentNode (snd (set_lineThickness str th (h, d))) = parentNode d"
  "childNodes (snd (set_lineThickness str th (h, d))) = childNodes d"
  "style (snd (set_lineThickness str th (h, d))) = style d"
  by (cases "highlightedBox h"; simp add: set_lineThickness_eq Let_def del: setAttributes_Cons)+

lemma set_lineThickness_other_node:
  "n \<notin> set (BoxHighlighting_nodes h) \<Longrightarrow>
     attributes (snd (set_lineThickness str th (h, d))) n = attributes d n"
  by (cases "highlightedBox h")
     (simp_all add: set_lineThickness_eq Let_def highlight_other_node attributes_setAttributes_other
        BoxHighlighting_nodes_def cornerBoxes_def del: setAttributes_Cons)

lemma set_lineThickness_width:
  assumes "BoxHighlighting_ok h"
  shows "stroke_width (str th) (boxTrace h # cornerBoxes h) (snd (set_lineThickness str th (h, d)))"
  by (cases "highlightedBox h")
     (simp_all add: stroke_width_def cornerBoxes_def set_lineThickness_eq Let_def highlight_other_name
        BoxHighlighting_ok_neqs[OF assms])

lemma set_lineThickness_None:
  assumes "highlightedBox h = None" and "k \<noteq> ''stroke-width''"
  shows "getAttribute n k (snd (set_lineThickness str th (h, d))) = getAttribute n k d"
  using assms by (simp add: set_lineThickness_eq Let_def getAttribute_setAttributes_name del: setAttributes_Cons)

lemma set_lineThickness_Some:
  assumes "BoxHighlighting_ok h" and "highlightedBox h = Some box"
  shows "getAttribute (boxTrace h) ''d'' (snd (set_lineThickness str th (h, d))) = Some (perimeter_d str box)"
    and "corner_boxes_at str th box h (snd (set_lineThickness str th (h, d)))"
proof -
  have ok: "BoxHighlighting_ok (h\<lparr>lineThickness := th\<rparr>)"
    using assms(1) by (simp add: BoxHighlighting_ok_def BoxHighlighting_nodes_def cornerBoxes_def)
  show "getAttribute (boxTrace h) ''d'' (snd (set_lineThickness str th (h, d))) = Some (perimeter_d str box)"
    using highlight_d(1)[OF ok] assms(2) by (simp add: set_lineThickness_eq Let_def del: setAttributes_Cons)
  show "corner_boxes_at str th box h (snd (set_lineThickness str th (h, d)))"
    using highlight_d(2-5)[OF ok] assms(2)
    by (simp add: corner_boxes_at_def set_lineThickness_eq Let_def del: setAttributes_Cons)
qed

lemma highlight_corner_boxes:
  "BoxHighlighting_ok h \<Longrightarrow> corner_boxes_at str (lineThickness h) box h (snd (highlight str box (h, d)))"
  by (simp add: corner_boxes_at_def highlight_d)


subsection \<open>The examples\<close>

lemma prints_integers_decimal: "prints_integers decimal"
  by (simp add: prints_integers_def)

lemma dom_ok_example: "dom_ok example_DOM"
  by (simp add: dom_ok_def example_DOM_def)

lemma example_new:
  "\<exists>d. projr (BoxHighlighting_new str example_DOM) =
     (\<lparr>bh_domNode = 2, boxTrace = 3, topLeftCornerBox = 4, topRightCornerBox = 5,
       bottomRightCornerBox = 6, bottomLeftCornerBox = 7, lineThickness = 0.5,
       highlightedBox = None\<rparr>, d)"
proof -
  have "next_node example_DOM = 2" by (simp add: example_DOM_def)
  from BoxHighlighting_new_eq[OF dom_ok_example this[symmetric], of str]
  show ?thesis by auto
qed

lemma example_highlighted_corner:
  "getAttribute (topLeftCornerBox (fst example_highlighted)) ''d'' (snd example_highlighted)
     = Some ''M -2 -2 h 2 v 2 h -2 z''"
proof -
  obtain h d where new: "projr (BoxHighlighting_new decimal example_DOM) = (h, d)"
    and h: "h = \<lparr>bh_domNode = 2, boxTrace = 3, topLeftCornerBox = 4, topRightCornerBox = 5,
       bottomRightCornerBox = 6, bottomLeftCornerBox = 7, lineThickness = 0.5,
       highlightedBox = None\<rparr>"
    using example_new[of decimal] by blast
  have ok: "BoxHighlighting_ok (h\<lparr>lineThickness := 1\<rparr>)"
    by (simp add: h BoxHighlighting_ok_def BoxHighlighting_nodes_def cornerBoxes_def)
  obtain d1 where set: "set_lineThickness decimal 1 (h, d) = (h\<lparr>lineThickness := 1\<rparr>, d1)"
    using set_lineThickness_fst[of decimal 1 h d] by (cases "set_lineThickness decimal 1 (h, d)") simp
  have "getAttribute (topLeftCornerBox (h\<lparr>lineThickness := 1\<rparr>)) ''d''
          (snd (highlight decimal small_box (h\<lparr>lineThickness := 1\<rparr>, d1)))
        = Some (cornerBoxD decimal 1 (minX small_box, minY small_box))"
    using highlight_d(2)[OF ok, of decimal small_box d1] by simp
  moreover have "cornerBoxD decimal 1 (minX small_box, minY small_box) = ''M -2 -2 h 2 v 2 h -2 z''"
    by (simp add: cornerBoxD_def minX_def minY_def small_box_def decimal_simps)
  ultimately show ?thesis
    by (simp add: example_highlighted_def new set highlight_fst)
qed

lemma perimeter_d_small_box: "perimeter_d decimal small_box = ''M 0 0 h 10 v 10 h -10 z''"
  by (simp add: perimeter_d_def small_box_def decimal_simps)

text \<open>
  Counterexample to C6 as stated (the perimeter path on every stroke sub-element): the
  corner boxes of a box highlighting are stroke sub-elements too, and \<^verbatim>\<open>highlight\<close> gives
  them their own paths. In the example the top-left corner box does not carry the perimeter
  path of the highlighted box.
\<close>

theorem corner_box_path_differs:
  "getAttribute (topLeftCornerBox (fst example_highlighted)) ''d'' (snd example_highlighted)
     \<noteq> Some (perimeter_d decimal small_box)"
  by (simp add: example_highlighted_corner perimeter_d_small_box)

text \<open>
  C4 (corner boxes centered on the corners of the box), evaluated on the example: with line
  thickness \<open>1\<close> and the box at the origin, the top-left corner box is the square from
  \<open>(-2, -2)\<close> to \<open>(0, 0)\<close>. Its side \<open>2 * sqrt 1\<close> depends on the line thickness, but its
  center is \<open>(-1, -1)\<close>, not the corner \<open>(0, 0)\<close> of the box: the corner is a vertex of the
  square that \<^verbatim>\<open>cornerBoxD\<close> draws, although its documentation says "centered on the given
  point".
\<close>

theorem corner_box_not_centered:
  "getAttribute (topLeftCornerBox (fst example_highlighted)) ''d'' (snd example_highlighted)
     = Some ''M -2 -2 h 2 v 2 h -2 z''
   \<and> ''M -2 -2 h 2 v 2 h -2 z'' = path_d decimal (cornerBox_path 1 (0, 0))
   \<and> vertices (cornerBox_path 1 (0, 0)) = [(- 2, - 2), (0, - 2), (0, 0), (- 2, 0)]
   \<and> center (vertices (cornerBox_path 1 (0, 0))) = (- 1, - 1)
   \<and> hd (corners small_box) = (0, 0)"
  by (simp add: example_highlighted_corner cornerBoxD_path[symmetric] cornerBoxD_def decimal_simps
      vertices_cornerBox center_def corners_def minX_def minY_def small_box_def)

lemma BoxHighlighting_ok_example: "BoxHighlighting_ok (fst (projr (BoxHighlighting_new str example_DOM)))"
  using example_new[of str]
  by (auto simp add: BoxHighlighting_ok_def BoxHighlighting_nodes_def cornerBoxes_def)

text \<open>
  C6, amended: for every box, \<^verbatim>\<open>trace\<close> sets the \<^verbatim>\<open>d\<close> attribute of both dashed paths of a
  box trace, and \<^verbatim>\<open>highlight\<close> sets the \<^verbatim>\<open>d\<close> attribute of the outline path of a box
  highlighting, to exactly \<^verbatim>\<open>M x y h width v height h -width z\<close>, while the four corner boxes
  of the box highlighting, for a line thickness that is not negative, get their corner
  paths. The outline is a closed path whose vertices are the four corners of the box;
  applying the same box again changes nothing; and with a number conversion that prints the
  integers of magnitude below \<^verbatim>\<open>1e21\<close> in decimal the example box
  \<^verbatim>\<open>{x: -22, y: 84, width: 501, height: 221}\<close> yields \<^verbatim>\<open>M -22 84 h 501 v 221 h -501 z\<close>.
\<close>

theorem perimeter_path_set:
  assumes "BoxHighlighting_ok h"
  shows "traced str box t (trace str box t d)
    \<and> getAttribute (boxTrace h) ''d'' (snd (highlight str box (h, d'))) = Some (perimeter_d str box)
    \<and> (0 \<le> lineThickness h \<longrightarrow>
          corner_boxes_at str (lineThickness h) box h (snd (highlight str box (h, d'))))
    \<and> perimeter_d str box = path_d str (perimeter_path box)
    \<and> vertices (perimeter_path box) = corners box
    \<and> trace str box t (trace str box t d) = trace str box t d
    \<and> highlight str box (highlight str box (h, d')) = highlight str box (h, d')
    \<and> (prints_integers str \<longrightarrow> perimeter_d str example_box = ''M -22 84 h 501 v 221 h -501 z'')"
  using assms
  by (simp add: traced_def trace_d highlight_d(1) highlight_corner_boxes perimeter_d_path[symmetric]
      vertices_perimeter trace_idem highlight_idem perimeter_d_example)


theorem perimeter_path_set_witness:
  "BoxHighlighting_ok (fst (projr (BoxHighlighting_new decimal example_DOM)))
   \<and> traced decimal example_box (fst example_traced) (snd example_traced)
   \<and> getAttribute (lightDashing (fst example_traced)) ''d'' (snd example_traced)
        = Some ''M -22 84 h 501 v 221 h -501 z''
   \<and> getAttribute (boxTrace (fst example_highlighted)) ''d'' (snd example_highlighted)
        = Some ''M 0 0 h 10 v 10 h -10 z''
   \<and> 0 \<le> lineThickness (fst (set_lineThickness decimal 1 (projr (BoxHighlighting_new decimal example_DOM))))
   \<and> corner_boxes_at decimal 1 small_box
        (fst (set_lineThickness decimal 1 (projr (BoxHighlighting_new decimal example_DOM))))
        (snd example_highlighted)
   \<and> prints_integers decimal"
proof -
  obtain t d where t: "projr (BoxTrace_new example_DOM) = (t, d)"
    by (cases "projr (BoxTrace_new example_DOM)")
  obtain h d' where h: "set_lineThickness decimal 1 (projr (BoxHighlighting_new decimal example_DOM)) = (h, d')"
    by (cases "set_lineThickness decimal 1 (projr (BoxHighlighting_new decimal example_DOM))")
  have ok: "BoxHighlighting_ok h"
    using h BoxHighlighting_ok_example[of decimal] set_lineThickness_fst[of decimal 1 "fst (projr (BoxHighlighting_new decimal example_DOM))" "snd (projr (BoxHighlighting_new decimal example_DOM))"]
    by (simp add: BoxHighlighting_ok_def BoxHighlighting_nodes_def cornerBoxes_def)
  have lt: "lineThickness h = 1"
    using h set_lineThickness_fst[of decimal 1 "fst (projr (BoxHighlighting_new decimal example_DOM))" "snd (projr (BoxHighlighting_new decimal example_DOM))"]
    by simp
  from perimeter_path_set[OF ok, where str = decimal and box = small_box and t = t and d = d and d' = d']
       perimeter_path_set[OF ok, where str = decimal and box = example_box and t = t and d = d and d' = d']
  show ?thesis
    using BoxHighlighting_ok_example[of decimal] prints_integers_decimal
    by (simp add: example_traced_def example_highlighted_def t h traced_def highlight_fst perimeter_d_small_box lt)
qed

text \<open>
  C7: for every thickness \<open>t > 0\<close>, \<^verbatim>\<open>setThickness\<close> of a box trace and the setter of
  \<^verbatim>\<open>lineThickness\<close> of a box highlighting set the stroke width \<open>t\<close> on every stroke
  sub-element. The setter also stores \<open>t\<close> and derives the corner boxes anew from the box
  highlighted last; when no box has been highlighted yet it changes no attribute other than
  the stroke widths.
\<close>

theorem thickness_sets_stroke_width:
  assumes "0 < t" and "BoxHighlighting_ok h"
  shows "stroke_width (str t) [lightDashing bt, darkDashing bt] (setThickness str t bt d)
    \<and> stroke_width (str t) (boxTrace h # cornerBoxes h) (snd (set_lineThickness str t (h, d')))
    \<and> fst (set_lineThickness str t (h, d')) = h\<lparr>lineThickness := t\<rparr>
    \<and> (\<forall>box. highlightedBox h = Some box \<longrightarrow>
          corner_boxes_at str t box h (snd (set_lineThickness str t (h, d')))
          \<and> getAttribute (boxTrace h) ''d'' (snd (set_lineThickness str t (h, d'))) = Some (perimeter_d str box))
    \<and> corner_boxes_at str t box' h (snd (set_lineThickness str t (highlight str box' (h, d'))))
    \<and> (highlightedBox h = None \<longrightarrow>
          (\<forall>n name. name \<noteq> ''stroke-width'' \<longrightarrow>
             getAttribute n name (snd (set_lineThickness str t (h, d'))) = getAttribute n name d'))"
proof -
  have ok: "BoxHighlighting_ok (h\<lparr>highlightedBox := Some box'\<rparr>)"
    using assms(2) by (simp add: BoxHighlighting_ok_def BoxHighlighting_nodes_def cornerBoxes_def)
  have "corner_boxes_at str t box' (h\<lparr>highlightedBox := Some box'\<rparr>)
          (snd (set_lineThickness str t (highlight str box' (h, d'))))"
    using set_lineThickness_Some(2)[OF ok, of box' str t] by (simp add: highlight_eq del: setAttributes_Cons)
  then have "corner_boxes_at str t box' h (snd (set_lineThickness str t (highlight str box' (h, d'))))"
    by (simp add: corner_boxes_at_def)
  moreover have "stroke_width (str t) [lightDashing bt, darkDashing bt] (setThickness str t bt d)"
    by (simp add: stroke_width_def setThickness_width)
  ultimately show ?thesis
    using assms(2)
    by (simp add: set_lineThickness_width set_lineThickness_fst set_lineThickness_Some
        set_lineThickness_None)
qed


theorem thickness_sets_stroke_width_witness:
  "(0::real) < 1
   \<and> BoxHighlighting_ok (fst (projr (BoxHighlighting_new decimal example_DOM)))
   \<and> stroke_width ''1''
        (boxTrace (fst (projr (BoxHighlighting_new decimal example_DOM)))
           # cornerBoxes (fst (projr (BoxHighlighting_new decimal example_DOM))))
        (snd (set_lineThickness decimal 1 (projr (BoxHighlighting_new decimal example_DOM))))
   \<and> lineThickness (fst (set_lineThickness decimal 1 (projr (BoxHighlighting_new decimal example_DOM)))) = 1
   \<and> getAttribute 4 ''d'' (snd (set_lineThickness decimal 1 (projr (BoxHighlighting_new decimal example_DOM))))
        = getAttribute 4 ''d'' (snd (projr (BoxHighlighting_new decimal example_DOM)))
   \<and> stroke_width ''1''
        [lightDashing (fst (projr (BoxTrace_new example_DOM))),
         darkDashing (fst (projr (BoxTrace_new example_DOM)))]
        (setThickness decimal 1 (fst (projr (BoxTrace_new example_DOM)))
           (snd (projr (BoxTrace_new example_DOM))))"
proof -
  obtain h d where new: "projr (BoxHighlighting_new decimal example_DOM) = (h, d)"
    and h: "highlightedBox h = None"
    using example_new[of decimal] by auto
  have ok: "BoxHighlighting_ok h"
    using BoxHighlighting_ok_example[of decimal] by (simp add: new)
  have pos: "(0::real) < 1" by simp
  from thickness_sets_stroke_width[OF pos ok, where str = decimal and d' = d
      and bt = "fst (projr (BoxTrace_new example_DOM))" and d = "snd (projr (BoxTrace_new example_DOM))"]
  show ?thesis
    using ok h by (simp add: new decimal_simps)
qed

section \<open>Refreshing the box highlightings\<close>

subsection \<open>One target\<close>

lemma BoxHighlighting_setOpacity_sel [simp]:
  "next_node (BoxHighlighting_setOpacity str v h d) = next_node d"
  "tagName (BoxHighlighting_setOpacity str v h d) = tagName d"
  "parentNode (BoxHighlighting_setOpacity str v h d) = parentNode d"
  "childNodes (BoxHighlighting_setOpacity str v h d) = childNodes d"
  "style (BoxHighlighting_setOpacity str v h d) = style d"
  by (simp_all add: BoxHighlighting_setOpacity_def)

lemma try_highlight_eq:
  "try_highlight str th box (h, d) =
     (h\<lparr>highlightedBox := Some box, lineThickness := th\<rparr>,
      BoxHighlighting_setOpacity str 1 h
        (snd (set_lineThickness str th (highlight str box (h, d)))))"
proof -
  obtain d1 where d1: "highlight str box (h, d) = (h\<lparr>highlightedBox := Some box\<rparr>, d1)"
    by (simp add: highlight_eq del: setAttributes_Cons)
  obtain d2 where d2: "set_lineThickness str th (h\<lparr>highlightedBox := Some box\<rparr>, d1)
      = (h\<lparr>highlightedBox := Some box, lineThickness := th\<rparr>, d2)"
    using set_lineThickness_fst[of str th "h\<lparr>highlightedBox := Some box\<rparr>" d1]
    by (cases "set_lineThickness str th (h\<lparr>highlightedBox := Some box\<rparr>, d1)") simp
  show ?thesis
    by (simp add: try_highlight_def d1 d2 BoxHighlighting_setOpacity_def)
qed

lemma try_highlight_sel [simp]:
  "next_node (snd (try_highlight str th box (h, d))) = next_node d"
  "tagName (snd (try_highlight str th box (h, d))) = tagName d"
  "parentNode (snd (try_highlight str th box (h, d))) = parentNode d"
  "childNodes (snd (try_highlight str th box (h, d))) = childNodes d"
  "style (snd (try_highlight str th box (h, d))) = style d"
  by (simp_all add: try_highlight_eq highlight_eq del: setAttributes_Cons)

lemma BoxHighlighting_nodes_update [simp]:
  "BoxHighlighting_nodes (h\<lparr>highlightedBox := b\<rparr>) = BoxHighlighting_nodes h"
  "BoxHighlighting_nodes (h\<lparr>lineThickness := t\<rparr>) = BoxHighlighting_nodes h"
  by (simp_all add: BoxHighlighting_nodes_def cornerBoxes_def)

lemma try_highlight_other_node:
  assumes "n \<notin> set (BoxHighlighting_nodes h)"
  shows "attributes (snd (try_highlight str th box (h, d))) n = attributes d n"
proof -
  have "n \<noteq> bh_domNode h" using assms by (auto simp add: BoxHighlighting_nodes_def)
  then show ?thesis
    using assms set_lineThickness_other_node[of n "h\<lparr>highlightedBox := Some box\<rparr>" str th]
      highlight_other_node[of n h str box d]
    by (simp add: try_highlight_eq BoxHighlighting_setOpacity_def highlight_eq del: setAttributes_Cons)
qed

lemma try_highlight_effect:
  assumes "BoxHighlighting_ok h"
  shows "highlighted str th box (fst (try_highlight str th box (h, d))) (snd (try_highlight str th box (h, d)))"
    and "opacity (bh_domNode h) (snd (try_highlight str th box (h, d))) = Some (str 1)"
proof -
  define h1 where "h1 = h\<lparr>highlightedBox := Some box\<rparr>"
  obtain d1 where d1: "highlight str box (h, d) = (h1, d1)"
    by (simp add: highlight_eq h1_def del: setAttributes_Cons)
  have ok1: "BoxHighlighting_ok h1" using assms by (simp add: h1_def BoxHighlighting_ok_def)
  have hb: "highlightedBox h1 = Some box" by (simp add: h1_def)
  note ne = BoxHighlighting_ok_neqs[OF ok1]
  have sel: "boxTrace h1 = boxTrace h" "cornerBoxes h1 = cornerBoxes h" "bh_domNode h1 = bh_domNode h"
    "topLeftCornerBox h1 = topLeftCornerBox h" "topRightCornerBox h1 = topRightCornerBox h"
    "bottomRightCornerBox h1 = bottomRightCornerBox h" "bottomLeftCornerBox h1 = bottomLeftCornerBox h"
    by (simp_all add: h1_def cornerBoxes_def)
  show "opacity (bh_domNode h) (snd (try_highlight str th box (h, d))) = Some (str 1)"
    by (simp add: opacity_def try_highlight_eq BoxHighlighting_setOpacity_def)
  show "highlighted str th box (fst (try_highlight str th box (h, d))) (snd (try_highlight str th box (h, d)))"
    using set_lineThickness_Some[OF ok1 hb, of str th d1] set_lineThickness_width[OF ok1, of str th d1] ne
    by (simp add: highlighted_def try_highlight_eq d1 BoxHighlighting_setOpacity_def sel
        corner_boxes_at_def stroke_width_def cornerBoxes_def)
qed


subsection \<open>Pairwise different nodes\<close>

lemma distinct_concat_nth_less:
  "distinct (concat xss) \<Longrightarrow> i < k \<Longrightarrow> k < length xss \<Longrightarrow> set (xss ! i) \<inter> set (xss ! k) = {}"
proof (induction xss arbitrary: i k)
  case Nil
  then show ?case by simp
next
  case (Cons xs xss)
  show ?case
  proof (cases i)
    case 0
    then have "xss ! (k - 1) \<in> set xss" using Cons.prems by (cases k) auto
    then have "set (xss ! (k - 1)) \<subseteq> set (concat xss)" by auto
    moreover have "set xs \<inter> set (concat xss) = {}" using Cons.prems(1) by auto
    ultimately show ?thesis using 0 Cons.prems by (cases k) auto
  next
    case (Suc j)
    then obtain l where "k = Suc l" using Cons.prems by (cases k) auto
    then show ?thesis using Suc Cons.prems Cons.IH[of j l] by simp
  qed
qed

lemma distinct_concat_nth:
  assumes "distinct (concat xss)" "i \<noteq> k" "i < length xss" "k < length xss"
  shows "set (xss ! i) \<inter> set (xss ! k) = {}"
proof (cases "i < k")
  case True
  then show ?thesis using assms distinct_concat_nth_less by blast
next
  case False
  then have "k < i" using assms(2) by simp
  then have "set (xss ! k) \<inter> set (xss ! i) = {}" using assms distinct_concat_nth_less by blast
  then show ?thesis by blast
qed

lemma map_update_same:
  assumes "f y = f (xs ! i)"
  shows "map f (xs[i := y]) = map f xs"
  unfolding list_eq_iff_nth_eq
proof (intro conjI allI impI)
  show "length (map f (xs[i := y])) = length (map f xs)" by simp
next
  fix j assume "j < length (map f (xs[i := y]))"
  then have j: "j < length xs" by simp
  show "map f (xs[i := y]) ! j = map f xs ! j"
    using j assms by (cases "i = j") simp_all
qed

lemma highlightings_other_nodes:
  assumes "highlightings_ok (this, w)" "i \<noteq> k" "i < length (boxHighlightings this)"
    "k < length (boxHighlightings this)" "n \<in> set (BoxHighlighting_nodes (boxHighlightings this ! k))"
  shows "n \<notin> set (BoxHighlighting_nodes (boxHighlightings this ! i))"
proof -
  have "distinct (concat (map BoxHighlighting_nodes (boxHighlightings this)))"
    using assms(1) by simp
  from distinct_concat_nth[OF this assms(2), of ] assms(3,4,5)
  show ?thesis by fastforce
qed

lemma highlightings_root_node:
  assumes "highlightings_ok (this, w)" "i < length (boxHighlightings this)"
  shows "domNode this \<notin> set (BoxHighlighting_nodes (boxHighlightings this ! i))"
    and "BoxHighlighting_ok (boxHighlightings this ! i)"
proof -
  have m: "boxHighlightings this ! i \<in> set (boxHighlightings this)" using assms(2) by simp
  have a: "domNode this \<notin> set (concat (map BoxHighlighting_nodes (boxHighlightings this)))"
    and b: "distinct (concat (map BoxHighlighting_nodes (boxHighlightings this)))"
    using assms(1) by simp_all
  show "domNode this \<notin> set (BoxHighlighting_nodes (boxHighlightings this ! i))"
    using a m by auto
  show "BoxHighlighting_ok (boxHighlightings this ! i)"
    using b m unfolding BoxHighlighting_ok_def by (auto simp add: distinct_concat_iff)
qed

subsection \<open>The loop over the targets\<close>

lemma highlight_target_ok:
  assumes "highlightings_ok s"
  shows "highlightings_ok (highlight_target str th e i s)"
    and "map BoxHighlighting_nodes (boxHighlightings (fst (highlight_target str th e i s)))
           = map BoxHighlighting_nodes (boxHighlightings (fst s))"
proof -
  obtain this w where s: "s = (this, w)" by (cases s)
  have "highlightings_ok (highlight_target str th e i s)
     \<and> map BoxHighlighting_nodes (boxHighlightings (fst (highlight_target str th e i s)))
           = map BoxHighlighting_nodes (boxHighlightings (fst s))"
  proof (cases "i < length (boxHighlightings this)")
    case False
    then show ?thesis using assms by (simp add: s)
  next
    case True
    show ?thesis
    proof (cases e)
      case (Inl err)
      then show ?thesis using assms True by (simp add: s)
    next
      case (Inr box)
      define h where "h = boxHighlightings this ! i"
      define X where "X = try_highlight str th box (h, doc w)"
      have X: "fst X = h\<lparr>highlightedBox := Some box, lineThickness := th\<rparr>"
        by (simp add: X_def try_highlight_eq)
      have eq: "highlight_target str th e i s =
          (this\<lparr>boxHighlightings := (boxHighlightings this)[i := fst X]\<rparr>, w\<lparr>doc := snd X\<rparr>)"
        using True Inr by (simp add: s X_def h_def split_beta Let_def)
      have nodes: "map BoxHighlighting_nodes ((boxHighlightings this)[i := fst X])
          = map BoxHighlighting_nodes (boxHighlightings this)"
        by (rule map_update_same) (simp add: X h_def)
      have doms: "map bh_domNode ((boxHighlightings this)[i := fst X]) = map bh_domNode (boxHighlightings this)"
        by (rule map_update_same) (simp add: X h_def)
      have selX: "next_node (snd X) = next_node (doc w)" "childNodes (snd X) = childNodes (doc w)"
        by (simp_all add: X_def)
      have "dom_ok (snd X) = dom_ok (doc w)"
        by (rule dom_ok_cong) (simp_all add: X_def)
      then have "highlightings_ok (this\<lparr>boxHighlightings := (boxHighlightings this)[i := fst X]\<rparr>, w\<lparr>doc := snd X\<rparr>)"
        using assms[unfolded s] by (simp add: nodes doms selX)
      then show ?thesis
        unfolding eq by (simp add: nodes s)
    qed
  qed
  then show "highlightings_ok (highlight_target str th e i s)"
    and "map BoxHighlighting_nodes (boxHighlightings (fst (highlight_target str th e i s)))
           = map BoxHighlighting_nodes (boxHighlightings (fst s))"
    by simp_all
qed


lemma highlight_target_unfold:
  "highlight_target str th e i (this, w) =
     (if i < length (boxHighlightings this) then
        (case e of
           Inr box \<Rightarrow>
             (this\<lparr>boxHighlightings := (boxHighlightings this)
                 [i := fst (try_highlight str th box (boxHighlightings this ! i, doc w))]\<rparr>,
              w\<lparr>doc := snd (try_highlight str th box (boxHighlightings this ! i, doc w))\<rparr>)
         | Inl err \<Rightarrow> (this, w\<lparr>console := console w @ [err]\<rparr>))
      else (this, w\<lparr>console := console w @ [TypeError]\<rparr>))"
  by (simp add: split_beta Let_def split: sum.split)

declare highlight_target.simps [simp del]

lemma highlight_target_frame:
  "domNode (fst (highlight_target str th e i s)) = domNode (fst s)"
  "parentSVGDoc (fst (highlight_target str th e i s)) = parentSVGDoc (fst s)"
  "length (boxHighlightings (fst (highlight_target str th e i s))) = length (boxHighlightings (fst s))"
  "changeListeners (snd (highlight_target str th e i s)) = changeListeners (snd s)"
  "observers (snd (highlight_target str th e i s)) = observers (snd s)"
  "next_node (doc (snd (highlight_target str th e i s))) = next_node (doc (snd s))"
  "parentNode (doc (snd (highlight_target str th e i s))) = parentNode (doc (snd s))"
  "childNodes (doc (snd (highlight_target str th e i s))) = childNodes (doc (snd s))"
  by (cases s; simp add: highlight_target_unfold split: sum.split)+

lemma highlight_target_console:
  "i < length (boxHighlightings (fst s)) \<Longrightarrow>
     console (snd (highlight_target str th e i s)) = console (snd s) @ thrown [e]"
  by (cases s) (simp add: highlight_target_unfold thrown_def split: sum.split)

lemma highlight_target_other_attributes:
  assumes "i < length (boxHighlightings (fst s)) \<longrightarrow> n \<notin> set (BoxHighlighting_nodes (boxHighlightings (fst s) ! i))"
  shows "attributes (doc (snd (highlight_target str th e i s))) n = attributes (doc (snd s)) n"
  using assms
  by (cases s) (simp add: highlight_target_unfold try_highlight_other_node split: sum.split)

lemma highlight_target_other_slot:
  assumes "highlightings_ok s" "k \<noteq> i" "k < length (boxHighlightings (fst s))"
  shows "highlighting_at k (highlight_target str th e i s) = highlighting_at k s"
proof -
  obtain this w where s: "s = (this, w)" by (cases s)
  have same: "boxHighlightings (fst (highlight_target str th e i (this, w))) ! k = boxHighlightings this ! k"
    using assms(2) by (simp add: highlight_target_unfold split: sum.split)
  have "attributes (doc (snd (highlight_target str th e i (this, w)))) n = attributes (doc w) n"
    if "n \<in> set (BoxHighlighting_nodes (boxHighlightings this ! k))" for n
  proof -
    have "i < length (boxHighlightings this) \<longrightarrow> n \<notin> set (BoxHighlighting_nodes (boxHighlightings this ! i))"
      using highlightings_other_nodes[of this w i k n] assms that by (simp add: s)
    then show ?thesis
      using highlight_target_other_attributes[of i "(this, w)" n str th e] by simp
  qed
  then have "map (attributes (doc (snd (highlight_target str th e i (this, w)))))
        (BoxHighlighting_nodes (boxHighlightings this ! k))
      = map (attributes (doc w)) (BoxHighlighting_nodes (boxHighlightings this ! k))"
    by simp
  then show ?thesis
    by (simp add: highlighting_at_def BoxHighlighting_view_def same s)
qed

lemma highlight_target_Inr:
  assumes "highlightings_ok s" "i < length (boxHighlightings (fst s))"
  shows "highlighted str th box (boxHighlightings (fst (highlight_target str th (Inr box) i s)) ! i)
           (doc (snd (highlight_target str th (Inr box) i s)))"
    and "opacity (bh_domNode (boxHighlightings (fst (highlight_target str th (Inr box) i s)) ! i))
           (doc (snd (highlight_target str th (Inr box) i s))) = Some (str 1)"
    and "boxHighlightings (fst (highlight_target str th (Inr box) i s)) ! i
           = (boxHighlightings (fst s) ! i)\<lparr>highlightedBox := Some box, lineThickness := th\<rparr>"
proof -
  obtain this w where s: "s = (this, w)" by (cases s)
  have ok: "BoxHighlighting_ok (boxHighlightings this ! i)"
    using highlightings_root_node(2)[of this w i] assms by (simp add: s)
  show "highlighted str th box (boxHighlightings (fst (highlight_target str th (Inr box) i s)) ! i)
           (doc (snd (highlight_target str th (Inr box) i s)))"
    using assms(2) try_highlight_effect(1)[OF ok, of str th box "doc w"]
    by (simp add: s highlight_target_unfold)
  show "opacity (bh_domNode (boxHighlightings (fst (highlight_target str th (Inr box) i s)) ! i))
           (doc (snd (highlight_target str th (Inr box) i s))) = Some (str 1)"
    using assms(2) try_highlight_effect(2)[OF ok, of str th box "doc w"]
    by (simp add: s highlight_target_unfold try_highlight_eq)
  show "boxHighlightings (fst (highlight_target str th (Inr box) i s)) ! i
           = (boxHighlightings (fst s) ! i)\<lparr>highlightedBox := Some box, lineThickness := th\<rparr>"
    using assms(2) by (simp add: s highlight_target_unfold try_highlight_eq)
qed

lemma highlight_target_Inl:
  assumes "i < length (boxHighlightings (fst s))"
  shows "highlighting_at i (highlight_target str th (Inl err) i s) = highlighting_at i s"
  using assms by (cases s) (simp add: highlight_target_unfold highlighting_at_def)

lemma BoxHighlighting_view_eq:
  "BoxHighlighting_view h d = BoxHighlighting_view h' d' \<longleftrightarrow>
     h = h' \<and> (\<forall>n \<in> set (BoxHighlighting_nodes h). attributes d n = attributes d' n)"
  by (auto simp add: BoxHighlighting_view_def)

lemma highlighted_view:
  assumes "BoxHighlighting_view h d = BoxHighlighting_view h' d'"
  shows "highlighted str th box h d = highlighted str th box h' d'"
    and "opacity (bh_domNode h) d = opacity (bh_domNode h') d'"
proof -
  from assms have h: "h' = h" and a: "\<And>n. n \<in> set (BoxHighlighting_nodes h) \<Longrightarrow> attributes d n = attributes d' n"
    by (simp_all add: BoxHighlighting_view_eq)
  have g: "getAttribute n k d = getAttribute n k d'" if "n \<in> set (BoxHighlighting_nodes h)" for n k
    using a[OF that] by (simp add: getAttribute_def)
  have m: "bh_domNode h \<in> set (BoxHighlighting_nodes h)" "boxTrace h \<in> set (BoxHighlighting_nodes h)"
    "topLeftCornerBox h \<in> set (BoxHighlighting_nodes h)" "topRightCornerBox h \<in> set (BoxHighlighting_nodes h)"
    "bottomRightCornerBox h \<in> set (BoxHighlighting_nodes h)" "bottomLeftCornerBox h \<in> set (BoxHighlighting_nodes h)"
    by (simp_all add: BoxHighlighting_nodes_def cornerBoxes_def)
  show "highlighted str th box h d = highlighted str th box h' d'"
    by (simp add: highlighted_def corner_boxes_at_def stroke_width_def cornerBoxes_def h g[OF m(2)]
        g[OF m(3)] g[OF m(4)] g[OF m(5)] g[OF m(6)])
  show "opacity (bh_domNode h) d = opacity (bh_domNode h') d'"
    by (simp add: opacity_def h g[OF m(1)])
qed

lemma highlight_targets_ok:
  assumes "highlightings_ok s"
  shows "highlightings_ok (forEach_from i (highlight_target str th) ts s)
    \<and> map BoxHighlighting_nodes (boxHighlightings (fst (forEach_from i (highlight_target str th) ts s)))
         = map BoxHighlighting_nodes (boxHighlightings (fst s))
    \<and> domNode (fst (forEach_from i (highlight_target str th) ts s)) = domNode (fst s)
    \<and> parentSVGDoc (fst (forEach_from i (highlight_target str th) ts s)) = parentSVGDoc (fst s)
    \<and> changeListeners (snd (forEach_from i (highlight_target str th) ts s)) = changeListeners (snd s)
    \<and> observers (snd (forEach_from i (highlight_target str th) ts s)) = observers (snd s)
    \<and> next_node (doc (snd (forEach_from i (highlight_target str th) ts s))) = next_node (doc (snd s))
    \<and> parentNode (doc (snd (forEach_from i (highlight_target str th) ts s))) = parentNode (doc (snd s))
    \<and> childNodes (doc (snd (forEach_from i (highlight_target str th) ts s))) = childNodes (doc (snd s))"
  by (rule forEach_from_inv[where I = "\<lambda>s'. highlightings_ok s'
    \<and> map BoxHighlighting_nodes (boxHighlightings (fst s')) = map BoxHighlighting_nodes (boxHighlightings (fst s))
    \<and> domNode (fst s') = domNode (fst s)
    \<and> parentSVGDoc (fst s') = parentSVGDoc (fst s)
    \<and> changeListeners (snd s') = changeListeners (snd s)
    \<and> observers (snd s') = observers (snd s)
    \<and> next_node (doc (snd s')) = next_node (doc (snd s))
    \<and> parentNode (doc (snd s')) = parentNode (doc (snd s))
    \<and> childNodes (doc (snd s')) = childNodes (doc (snd s))"])
    (simp_all add: assms highlight_target_ok highlight_target_frame)

lemma highlight_targets_length:
  "length (boxHighlightings (fst (forEach_from i (highlight_target str th) ts s)))
     = length (boxHighlightings (fst s))"
  by (rule forEach_from_inv[where I = "\<lambda>s'. length (boxHighlightings (fst s')) = length (boxHighlightings (fst s))"])
     (simp_all add: highlight_target_frame)

lemma highlight_targets_console:
  "i + length ts \<le> length (boxHighlightings (fst s)) \<Longrightarrow>
     console (snd (forEach_from i (highlight_target str th) ts s)) = console (snd s) @ thrown ts"
proof (induction ts arbitrary: i s)
  case Nil
  show ?case by (simp add: thrown_def)
next
  case (Cons e ts)
  have "console (snd (forEach_from (Suc i) (highlight_target str th) ts (highlight_target str th e i s)))
      = console (snd (highlight_target str th e i s)) @ thrown ts"
    using Cons.prems by (intro Cons.IH) (simp add: highlight_target_frame)
  also have "console (snd (highlight_target str th e i s)) = console (snd s) @ thrown [e]"
    using Cons.prems by (intro highlight_target_console) simp
  finally show ?case by (simp add: thrown_def)
qed

lemma highlight_targets_other_attributes:
  assumes "n \<notin> set (concat (map BoxHighlighting_nodes (boxHighlightings (fst s))))"
  shows "attributes (doc (snd (forEach_from i (highlight_target str th) ts s))) n = attributes (doc (snd s)) n"
proof (rule forEach_from_frame[where V = "\<lambda>s'. attributes (doc (snd s')) n" and k = "i + length ts"
      and I = "\<lambda>s'. n \<notin> set (concat (map BoxHighlighting_nodes (boxHighlightings (fst s'))))"])
  fix a j and s' :: "LiveSVGElementHighlightings \<times> world"
  assume n: "n \<notin> set (concat (map BoxHighlighting_nodes (boxHighlightings (fst s'))))"
  obtain this w where s': "s' = (this, w)" by (cases s')
  show "n \<notin> set (concat (map BoxHighlighting_nodes (boxHighlightings (fst (highlight_target str th a j s')))))"
    using n by (auto simp add: s' highlight_target_unfold try_highlight_eq split: sum.split dest!: set_update_subset_insert[THEN subsetD])
  show "attributes (doc (snd (highlight_target str th a j s'))) n = attributes (doc (snd s')) n"
    using n by (intro highlight_target_other_attributes) auto
qed (use assms in simp_all)

lemma highlight_targets_slot_outside:
  assumes "highlightings_ok s" "k < length (boxHighlightings (fst s))" "k < i \<or> i + length ts \<le> k"
  shows "highlighting_at k (forEach_from i (highlight_target str th) ts s) = highlighting_at k s"
  by (rule forEach_from_frame[where k = k
      and I = "\<lambda>s'. highlightings_ok s' \<and> length (boxHighlightings (fst s')) = length (boxHighlightings (fst s))"])
    (simp_all add: assms highlight_target_ok highlight_target_frame highlight_target_other_slot)

lemma highlight_targets_at:
  assumes "highlightings_ok s" "k < length (boxHighlightings (fst s))" "i \<le> k" "k < i + length ts"
  obtains s0 where "highlightings_ok s0" "k < length (boxHighlightings (fst s0))"
    "boxHighlightings (fst s0) ! k = boxHighlightings (fst s) ! k"
    "highlighting_at k s0 = highlighting_at k s"
    "highlighting_at k (forEach_from i (highlight_target str th) ts s)
       = highlighting_at k (highlight_target str th (ts ! (k - i)) k s0)"
proof -
  have "\<exists>s0. (highlightings_ok s0 \<and> length (boxHighlightings (fst s0)) = length (boxHighlightings (fst s)))
      \<and> highlighting_at k s0 = highlighting_at k s
      \<and> highlighting_at k (forEach_from i (highlight_target str th) ts s)
          = highlighting_at k (highlight_target str th (ts ! (k - i)) k s0)"
    by (rule forEach_from_at)
      (simp_all add: assms highlight_target_ok highlight_target_frame highlight_target_other_slot)
  then obtain s0 where ok0: "highlightings_ok s0"
    and len0: "length (boxHighlightings (fst s0)) = length (boxHighlightings (fst s))"
    and v0: "highlighting_at k s0 = highlighting_at k s"
    and v': "highlighting_at k (forEach_from i (highlight_target str th) ts s)
          = highlighting_at k (highlight_target str th (ts ! (k - i)) k s0)"
    by auto
  have k0: "k < length (boxHighlightings (fst s0))" using assms(2) len0 by simp
  have same0: "boxHighlightings (fst s0) ! k = boxHighlightings (fst s) ! k"
    using v0 by (simp add: highlighting_at_def BoxHighlighting_view_def)
  show thesis using that[OF ok0 k0 same0 v0 v'] .
qed

lemma highlight_targets_slot_Inl:
  assumes "highlightings_ok s" "k < length (boxHighlightings (fst s))" "i \<le> k" "k < i + length ts"
    and "ts ! (k - i) = Inl err"
  shows "highlighting_at k (forEach_from i (highlight_target str th) ts s) = highlighting_at k s"
proof -
  from highlight_targets_at[OF assms(1-4), of str th]
  obtain s0 where s0: "k < length (boxHighlightings (fst s0))"
    "highlighting_at k s0 = highlighting_at k s"
    "highlighting_at k (forEach_from i (highlight_target str th) ts s)
       = highlighting_at k (highlight_target str th (ts ! (k - i)) k s0)"
    by blast
  show ?thesis
    using s0(2,3) highlight_target_Inl[OF s0(1), of str th err] by (simp add: assms(5))
qed

lemma highlight_targets_slot_Inr:
  assumes "highlightings_ok s" "k < length (boxHighlightings (fst s))" "i \<le> k" "k < i + length ts"
    and "ts ! (k - i) = Inr box"
  shows "highlighted str th box (boxHighlightings (fst (forEach_from i (highlight_target str th) ts s)) ! k)
               (doc (snd (forEach_from i (highlight_target str th) ts s)))"
    and "opacity (bh_domNode (boxHighlightings (fst (forEach_from i (highlight_target str th) ts s)) ! k))
                 (doc (snd (forEach_from i (highlight_target str th) ts s))) = Some (str 1)"
    and "boxHighlightings (fst (forEach_from i (highlight_target str th) ts s)) ! k
                 = (boxHighlightings (fst s) ! k)\<lparr>highlightedBox := Some box, lineThickness := th\<rparr>"
proof -
  define s' where "s' = forEach_from i (highlight_target str th) ts s"
  from highlight_targets_at[OF assms(1-4), of str th]
  obtain s0 where ok0: "highlightings_ok s0" and k0: "k < length (boxHighlightings (fst s0))"
    and same0: "boxHighlightings (fst s0) ! k = boxHighlightings (fst s) ! k"
    and v': "highlighting_at k s' = highlighting_at k (highlight_target str th (ts ! (k - i)) k s0)"
    unfolding s'_def by blast
  define sf where "sf = highlight_target str th (Inr box) k s0"
  have v: "BoxHighlighting_view (boxHighlightings (fst s') ! k) (doc (snd s'))
         = BoxHighlighting_view (boxHighlightings (fst sf) ! k) (doc (snd sf))"
    using v' assms(5) by (simp add: highlighting_at_def sf_def)
  have eq: "boxHighlightings (fst s') ! k = boxHighlightings (fst sf) ! k"
    using v by (simp add: BoxHighlighting_view_def)
  note f = highlight_target_Inr[OF ok0 k0, of str th box, folded sf_def]
  show "highlighted str th box (boxHighlightings (fst s') ! k) (doc (snd s'))"
    using highlighted_view(1)[OF v, of str th box] f(1) by simp
  show "opacity (bh_domNode (boxHighlightings (fst s') ! k)) (doc (snd s')) = Some (str 1)"
    using highlighted_view(2)[OF v] f(2) by simp
  show "boxHighlightings (fst s') ! k
                 = (boxHighlightings (fst s) ! k)\<lparr>highlightedBox := Some box, lineThickness := th\<rparr>"
    using eq f(3) same0 by simp
qed

subsection \<open>The loop that creates box highlightings\<close>

lemma create_boxHighlightings_ok:
  assumes "highlightings_ok s"
  shows "\<exists>s'. forEach_throwing_from i (create_boxHighlighting str) xs s = Inr s'
    \<and> highlightings_ok s'
    \<and> (\<exists>new. boxHighlightings (fst s') = boxHighlightings (fst s) @ new \<and> length new = length xs)
    \<and> domNode (fst s') = domNode (fst s)
    \<and> parentSVGDoc (fst s') = parentSVGDoc (fst s)
    \<and> console (snd s') = console (snd s)
    \<and> changeListeners (snd s') = changeListeners (snd s)
    \<and> observers (snd s') = observers (snd s)
    \<and> next_node (doc (snd s)) \<le> next_node (doc (snd s'))
    \<and> (\<forall>n < next_node (doc (snd s)). attributes (doc (snd s')) n = attributes (doc (snd s)) n)"
  using assms
proof (induction xs arbitrary: i s)
  case Nil
  then show ?case by simp
next
  case (Cons x xs)
  obtain this w where s: "s = (this, w)" by (cases s)
  from create_boxHighlighting_ok[of this w str x i] Cons.prems
  obtain h d1 where c: "create_boxHighlighting str x i (this, w) =
            Inr (this\<lparr>boxHighlightings := boxHighlightings this @ [h]\<rparr>, w\<lparr>doc := d1\<rparr>)"
      and ok1: "highlightings_ok (this\<lparr>boxHighlightings := boxHighlightings this @ [h]\<rparr>, w\<lparr>doc := d1\<rparr>)"
      and n1: "next_node (doc w) \<le> next_node d1"
      and a1: "\<forall>n < next_node (doc w). attributes d1 n = attributes (doc w) n"
    unfolding s by blast
  define s1 where "s1 = (this\<lparr>boxHighlightings := boxHighlightings this @ [h]\<rparr>, w\<lparr>doc := d1\<rparr>)"
  from Cons.IH[of s1 "Suc i"] ok1
  obtain s' new where r: "forEach_throwing_from (Suc i) (create_boxHighlighting str) xs s1 = Inr s'"
    and ok': "highlightings_ok s'"
    and new: "boxHighlightings (fst s') = boxHighlightings (fst s1) @ new" "length new = length xs"
    and frame: "domNode (fst s') = domNode (fst s1)" "parentSVGDoc (fst s') = parentSVGDoc (fst s1)"
      "console (snd s') = console (snd s1)" "changeListeners (snd s') = changeListeners (snd s1)"
      "observers (snd s') = observers (snd s1)"
    and n': "next_node (doc (snd s1)) \<le> next_node (doc (snd s'))"
    and a': "\<forall>n < next_node (doc (snd s1)). attributes (doc (snd s')) n = attributes (doc (snd s1)) n"
    unfolding s1_def by blast
  have "forEach_throwing_from i (create_boxHighlighting str) (x # xs) s = Inr s'"
    using c r by (simp add: s s1_def)
  moreover have "boxHighlightings (fst s') = boxHighlightings (fst s) @ (h # new) \<and> length (h # new) = length (x # xs)"
    using new by (simp add: s s1_def)
  moreover have "\<forall>n < next_node (doc (snd s)). attributes (doc (snd s')) n = attributes (doc (snd s)) n"
    using a1 a' n1 by (simp add: s s1_def)
  moreover have "next_node (doc (snd s)) \<le> next_node (doc (snd s'))"
    using n1 n' by (simp add: s s1_def)
  ultimately show ?case
    using ok' frame by (intro exI[of _ s']) (auto simp add: s s1_def)
qed

subsection \<open>The loop that hides the extra box highlightings\<close>

lemma hide_boxHighlightings_eq:
  "forEach_from i (hide_boxHighlighting str) ms (this, w) =
     (this, w\<lparr>doc := setAttributes (map (\<lambda>m. (bh_domNode m, ''opacity'', str 0)) ms) (doc w)\<rparr>)"
  by (induction ms arbitrary: i w) (simp_all add: BoxHighlighting_setOpacity_def)

lemma hidden_opacity:
  "n \<in> set ns \<Longrightarrow> getAttribute n ''opacity'' (setAttributes (map (\<lambda>n. (n, ''opacity'', v)) ns) d) = Some v"
proof (induction ns arbitrary: d rule: rev_induct)
  case Nil
  then show ?case by simp
next
  case (snoc m ns)
  show ?case
  proof (cases "n = m")
    case True
    then show ?thesis by (simp add: setAttributes_append)
  next
    case False
    then show ?thesis using snoc by (simp add: setAttributes_append)
  qed
qed


subsection \<open>A refresh\<close>

lemma refresh_ok:
  assumes ok: "highlightings_ok s"
  shows "\<exists>s'. refresh str ts scaling s = Inr s'
     \<and> highlightings_ok s'
     \<and> length (boxHighlightings (fst s')) = max (length (boxHighlightings (fst s))) (length ts)
     \<and> map BoxHighlighting_nodes (take (length (boxHighlightings (fst s))) (boxHighlightings (fst s')))
          = map BoxHighlighting_nodes (boxHighlightings (fst s))
     \<and> domNode (fst s') = domNode (fst s)
     \<and> parentSVGDoc (fst s') = parentSVGDoc (fst s)
     \<and> changeListeners (snd s') = changeListeners (snd s)
     \<and> observers (snd s') = observers (snd s)
     \<and> console (snd s') = console (snd s) @ thrown ts
     \<and> (\<forall>k < length ts. case ts ! k of
           Inr box \<Rightarrow>
             highlighted str (0.75 / scaling) box (boxHighlightings (fst s') ! k) (doc (snd s'))
             \<and> opacity (bh_domNode (boxHighlightings (fst s') ! k)) (doc (snd s')) = Some (str 1)
         | Inl err \<Rightarrow>
             k < length (boxHighlightings (fst s)) \<longrightarrow> highlighting_at k s' = highlighting_at k s)
     \<and> (\<forall>k. length ts \<le> k \<and> k < length (boxHighlightings (fst s')) \<longrightarrow>
           opacity (bh_domNode (boxHighlightings (fst s') ! k)) (doc (snd s')) = Some (str 0)
           \<and> boxHighlightings (fst s') ! k = boxHighlightings (fst s) ! k)"
proof -
  define th where "th = 0.75 / scaling"
  define pool where "pool = boxHighlightings (fst s)"
  from create_boxHighlightings_ok[OF ok, of 0 str "drop (length pool) ts"]
  obtain s1 new where grow: "forEach_throwing_from 0 (create_boxHighlighting str) (drop (length pool) ts) s = Inr s1"
    and ok1: "highlightings_ok s1"
    and pool1: "boxHighlightings (fst s1) = pool @ new" and new: "length new = length ts - length pool"
    and frame1: "domNode (fst s1) = domNode (fst s)" "parentSVGDoc (fst s1) = parentSVGDoc (fst s)"
      "console (snd s1) = console (snd s)" "changeListeners (snd s1) = changeListeners (snd s)"
      "observers (snd s1) = observers (snd s)"
    and a1: "\<forall>n < next_node (doc (snd s)). attributes (doc (snd s1)) n = attributes (doc (snd s)) n"
    unfolding pool_def by auto
  have len1: "length (boxHighlightings (fst s1)) = max (length pool) (length ts)"
    using pool1 new by simp
  define s2 where "s2 = forEach_from 0 (highlight_target str th) ts s1"
  note u = highlight_targets_ok[OF ok1, of 0 str th ts, folded s2_def]
  have ok2: "highlightings_ok s2" using u by simp
  have nodes2: "map BoxHighlighting_nodes (boxHighlightings (fst s2)) = map BoxHighlighting_nodes (boxHighlightings (fst s1))"
    using u by simp
  have len2: "length (boxHighlightings (fst s2)) = length (boxHighlightings (fst s1))"
    using nodes2 by (metis length_map)
  define hide where "hide = map (\<lambda>m. (bh_domNode m, ''opacity'', str 0)) (drop (length ts) (boxHighlightings (fst s2)))"
  define s3 where "s3 = (fst s2, (snd s2)\<lparr>doc := setAttributes hide (doc (snd s2))\<rparr>)"
  have "forEach_from 0 (hide_boxHighlighting str) (drop (length ts) (boxHighlightings (fst s2))) s2 = s3"
    using hide_boxHighlightings_eq[of 0 str "drop (length ts) (boxHighlightings (fst s2))" "fst s2" "snd s2"]
    by (simp add: s3_def hide_def)
  then have r: "refresh str ts scaling s = Inr s3"
    unfolding refresh_def forEach_throwing_def forEach_def pool_def[symmetric] grow and_then_Inr Let_def
      th_def[symmetric] s2_def[symmetric]
    by simp
  have sel3: "next_node (doc (snd s3)) = next_node (doc (snd s2))"
    "parentNode (doc (snd s3)) = parentNode (doc (snd s2))"
    "childNodes (doc (snd s3)) = childNodes (doc (snd s2))"
    "boxHighlightings (fst s3) = boxHighlightings (fst s2)" "domNode (fst s3) = domNode (fst s2)"
    by (simp_all add: s3_def)
  have "dom_ok (doc (snd s3)) = dom_ok (doc (snd s2))"
    by (rule dom_ok_cong) (simp_all add: sel3)
  then have ok3: "highlightings_ok s3"
    using ok2 by (cases s2) (simp add: s3_def)
  have hide_nodes: "fst ` set hide = bh_domNode ` set (drop (length ts) (boxHighlightings (fst s2)))"
    by (force simp add: hide_def)
  have keep: "highlighting_at k s3 = highlighting_at k s2" if k: "k < length ts" for k
  proof -
    have k2: "k < length (boxHighlightings (fst s2))" using k len1 len2 by simp
    have "attributes (setAttributes hide (doc (snd s2))) n = attributes (doc (snd s2)) n"
      if n: "n \<in> set (BoxHighlighting_nodes (boxHighlightings (fst s2) ! k))" for n
    proof (rule attributes_setAttributes_other)
      show "n \<notin> fst ` set hide"
      proof
        assume "n \<in> fst ` set hide"
        then obtain m where m: "m \<in> set (drop (length ts) (boxHighlightings (fst s2)))" "n = bh_domNode m"
          unfolding hide_nodes by blast
        then obtain j where j: "j < length (boxHighlightings (fst s2)) - length ts"
          "m = boxHighlightings (fst s2) ! (length ts + j)"
          by (auto simp add: in_set_conv_nth)
        have "n \<in> set (BoxHighlighting_nodes (boxHighlightings (fst s2) ! (length ts + j)))"
          using m(2) j(2) by (simp add: BoxHighlighting_nodes_def)
        moreover have "n \<notin> set (BoxHighlighting_nodes (boxHighlightings (fst s2) ! (length ts + j)))"
          using highlightings_other_nodes[of "fst s2" "snd s2" "length ts + j" k n] ok2 k k2 j(1) n
          by simp
        ultimately show False by simp
      qed
    qed
    then show ?thesis
      by (simp add: highlighting_at_def BoxHighlighting_view_def s3_def)
  qed
  have old: "highlighting_at k s1 = highlighting_at k s" if k: "k < length pool" for k
  proof -
    have same: "boxHighlightings (fst s1) ! k = pool ! k" using k pool1 by (simp add: nth_append)
    have "attributes (doc (snd s1)) n = attributes (doc (snd s)) n"
      if n: "n \<in> set (BoxHighlighting_nodes (pool ! k))" for n
    proof -
      have "n \<in> set (concat (map BoxHighlighting_nodes pool))" using n k by auto
      then have "n < next_node (doc (snd s))" using ok by (cases s) (auto simp add: pool_def)
      then show ?thesis using a1 by simp
    qed
    then show ?thesis
      by (simp add: highlighting_at_def BoxHighlighting_view_def same pool_def[symmetric])
  qed
  have slots: "case ts ! k of
           Inr box \<Rightarrow>
             highlighted str th box (boxHighlightings (fst s3) ! k) (doc (snd s3))
             \<and> opacity (bh_domNode (boxHighlightings (fst s3) ! k)) (doc (snd s3)) = Some (str 1)
         | Inl err \<Rightarrow> k < length pool \<longrightarrow> highlighting_at k s3 = highlighting_at k s"
    if k: "k < length ts" for k
  proof -
    have k1: "k < length (boxHighlightings (fst s1))" using k len1 by simp
    have k0: "(0::nat) \<le> k" "k < 0 + length ts" using k by simp_all
    have v: "BoxHighlighting_view (boxHighlightings (fst s3) ! k) (doc (snd s3))
           = BoxHighlighting_view (boxHighlightings (fst s2) ! k) (doc (snd s2))"
      using keep[OF k] by (simp add: highlighting_at_def)
    show ?thesis
    proof (cases "ts ! k")
      case (Inl err)
      then have "ts ! (k - 0) = Inl err" by simp
      from highlight_targets_slot_Inl[OF ok1 k1 k0 this, of str th]
      show ?thesis using Inl keep[OF k] old[of k] by (simp add: s2_def)
    next
      case (Inr box)
      then have "ts ! (k - 0) = Inr box" by simp
      note f = highlight_targets_slot_Inr[OF ok1 k1 k0 this, of str th, folded s2_def]
      show ?thesis
        using highlighted_view(1)[OF v, of str th box] highlighted_view(2)[OF v] f(1,2) Inr by simp
    qed
  qed
  have extra: "opacity (bh_domNode (boxHighlightings (fst s3) ! k)) (doc (snd s3)) = Some (str 0)
           \<and> boxHighlightings (fst s3) ! k = pool ! k"
    if k: "length ts \<le> k" "k < length (boxHighlightings (fst s3))" for k
  proof -
    have k2: "k < length (boxHighlightings (fst s2))" using k by (simp add: sel3)
    then have k1: "k < length (boxHighlightings (fst s1))" using len2 by simp
    then have kp: "k < length pool" using len1 k(1) by simp
    have "highlighting_at k s2 = highlighting_at k s1"
      unfolding s2_def using k(1) by (intro highlight_targets_slot_outside[OF ok1 k1]) simp
    then have "boxHighlightings (fst s2) ! k = boxHighlightings (fst s1) ! k"
      by (simp add: highlighting_at_def BoxHighlighting_view_def)
    then have same: "boxHighlightings (fst s3) ! k = pool ! k"
      using kp pool1 by (simp add: sel3 nth_append)
    have "boxHighlightings (fst s2) ! k \<in> set (drop (length ts) (boxHighlightings (fst s2)))"
      using k(1) k2 by (auto simp add: in_set_conv_nth intro!: exI[of _ "k - length ts"])
    then have "bh_domNode (boxHighlightings (fst s2) ! k)
        \<in> set (map bh_domNode (drop (length ts) (boxHighlightings (fst s2))))"
      by simp
    from hidden_opacity[OF this, of "str 0" "doc (snd s2)"]
    have "opacity (bh_domNode (boxHighlightings (fst s3) ! k)) (doc (snd s3)) = Some (str 0)"
      by (simp add: opacity_def s3_def hide_def comp_def)
    then show ?thesis using same by simp
  qed
  have take: "map BoxHighlighting_nodes (take (length pool) (boxHighlightings (fst s3)))
          = map BoxHighlighting_nodes pool"
  proof -
    have "map BoxHighlighting_nodes (take (length pool) (boxHighlightings (fst s3)))
        = take (length pool) (map BoxHighlighting_nodes (boxHighlightings (fst s2)))"
      by (simp only: sel3 take_map)
    also have "\<dots> = take (length pool) (map BoxHighlighting_nodes (boxHighlightings (fst s1)))"
      by (simp only: nodes2)
    finally show ?thesis by (simp add: pool1)
  qed
  have cons: "console (snd s3) = console (snd s) @ thrown ts"
    using highlight_targets_console[of 0 ts s1 str th] len1 frame1
    by (simp add: s3_def s2_def[symmetric])
  have F1: "length (boxHighlightings (fst s3)) = max (length (boxHighlightings (fst s))) (length ts)"
    using len1 len2 by (simp add: sel3 pool_def)
  have F2: "map BoxHighlighting_nodes (take (length (boxHighlightings (fst s))) (boxHighlightings (fst s3)))
          = map BoxHighlighting_nodes (boxHighlightings (fst s))"
    using take by (simp only: pool_def)
  have F3: "domNode (fst s3) = domNode (fst s)" "parentSVGDoc (fst s3) = parentSVGDoc (fst s)"
    "changeListeners (snd s3) = changeListeners (snd s)" "observers (snd s3) = observers (snd s)"
    using u frame1 by (simp_all add: s3_def)
  have F4: "\<forall>k < length ts. case ts ! k of
           Inr box \<Rightarrow>
             highlighted str (0.75 / scaling) box (boxHighlightings (fst s3) ! k) (doc (snd s3))
             \<and> opacity (bh_domNode (boxHighlightings (fst s3) ! k)) (doc (snd s3)) = Some (str 1)
         | Inl err \<Rightarrow>
             k < length (boxHighlightings (fst s)) \<longrightarrow> highlighting_at k s3 = highlighting_at k s"
    using slots unfolding th_def pool_def by blast
  have F5: "\<forall>k. length ts \<le> k \<and> k < length (boxHighlightings (fst s3)) \<longrightarrow>
           opacity (bh_domNode (boxHighlightings (fst s3) ! k)) (doc (snd s3)) = Some (str 0)
           \<and> boxHighlightings (fst s3) ! k = boxHighlightings (fst s) ! k"
    using extra unfolding pool_def by blast
  show ?thesis
    by (rule exI[of _ s3]) (intro conjI r ok3 F1 F2 F3 cons F4 F5)
qed

section \<open>Attaching and detaching\<close>

subsection \<open>Nodes\<close>

lemma dom_ok_child_unique:
  "dom_ok d \<Longrightarrow> n \<in> set (childNodes d p) \<Longrightarrow> n \<in> set (childNodes d q) \<Longrightarrow> p = q"
  unfolding dom_ok_def by (metis option.inject)

lemma remove_node_eq:
  assumes "dom_ok d"
  shows "remove_node n d = d\<lparr>parentNode := (parentNode d)(n := None),
           childNodes := (\<lambda>p. remove1 n (childNodes d p))\<rparr>"
proof (cases "parentNode d n")
  case None
  have "n \<notin> set (childNodes d p)" for p
    using assms None unfolding dom_ok_def by (metis option.distinct(1))
  then have "(\<lambda>p. remove1 n (childNodes d p)) = childNodes d"
    by (simp add: remove1_idem)
  moreover have "(parentNode d)(n := None) = parentNode d" using None by auto
  ultimately show ?thesis using None by (simp add: remove_node_def)
next
  case (Some q)
  have q: "n \<in> set (childNodes d q)" using assms Some by (simp add: dom_ok_def)
  have "n \<notin> set (childNodes d p)" if "p \<noteq> q" for p
    using dom_ok_child_unique[OF assms _ q] that by blast
  then have "(childNodes d)(q := remove1 n (childNodes d q)) = (\<lambda>p. remove1 n (childNodes d p))"
    by (auto simp add: fun_eq_iff remove1_idem)
  then show ?thesis using Some by (simp add: remove_node_def)
qed

lemma appendChild_eq:
  assumes "dom_ok d" and "appendChild c n d = Inr d'"
  shows "d' = d\<lparr>parentNode := (parentNode d)(n \<mapsto> c),
           childNodes := (\<lambda>p. if p = c then remove1 n (childNodes d p) @ [n] else remove1 n (childNodes d p))\<rparr>"
  using appendChild_Inr(4)[OF assms(2)] by (simp add: remove_node_eq[OF assms(1)] fun_eq_iff)

lemma appendChild_sel:
  assumes "appendChild c n d = Inr d'"
  shows "next_node d' = next_node d" "tagName d' = tagName d" "attributes d' = attributes d"
    "style d' = style d"
  using appendChild_Inr(4)[OF assms] by simp_all

lemma appendChild_parents:
  assumes "dom_ok d" and "appendChild c n d = Inr d'"
  shows "parentNode d' n = Some c" and "parents d' n = {c}"
proof -
  note eq = appendChild_eq[OF assms]
  show "parentNode d' n = Some c" by (simp add: eq)
  have "distinct (childNodes d p)" for p using assms(1) by (simp add: dom_ok_def)
  then have "n \<notin> set (remove1 n (childNodes d p))" for p by simp
  then show "parents d' n = {c}" by (auto simp add: parents_def eq)
qed

lemma inclusive_ancestor_upd:
  "\<not> inclusive_ancestor k par a c \<Longrightarrow> inclusive_ancestor k (par(a := x)) a c = inclusive_ancestor k par a c"
proof (induction k arbitrary: c)
  case 0
  then show ?case by simp
next
  case (Suc k)
  then have "a \<noteq> c" by auto
  then show ?case using Suc by (cases "par c") auto
qed

lemma appendChild_again:
  assumes "dom_ok d" and "appendChild c n d = Inr d1"
  shows "appendChild c n (remove_node n d1) = Inr d1"
proof -
  note a = appendChild_Inr[OF assms(2)]
  note eq1 = appendChild_eq[OF assms]
  have ok1: "dom_ok d1" by (rule dom_ok_appendChild[OF assms])
  have dist: "distinct (childNodes d p)" for p using assms(1) by (simp add: dom_ok_def)
  have r1: "remove1 n (remove1 n (childNodes d p)) = remove1 n (childNodes d p)" for p
    using dist[of p] by (simp add: remove1_idem)
  have r2: "remove1 n (remove1 n (childNodes d p) @ [n]) = remove1 n (childNodes d p)" for p
    using dist[of p] by (simp add: remove1_append)
  define d2 where "d2 = remove_node n d1"
  have eq2: "d2 = d1\<lparr>parentNode := (parentNode d1)(n := None),
           childNodes := (\<lambda>p. remove1 n (childNodes d1 p))\<rparr>"
    unfolding d2_def by (rule remove_node_eq[OF ok1])
  have par2: "parentNode d2 = (parentNode d)(n := None)" by (simp add: eq2 eq1)
  have kids2: "childNodes d2 = (\<lambda>p. remove1 n (childNodes d p))"
    by (auto simp add: eq2 eq1 fun_eq_iff r1 r2)
  have nn: "next_node d2 = next_node d" by (simp add: eq2 eq1)
  have ok2: "dom_ok d2" unfolding d2_def by (rule dom_ok_remove_node[OF ok1])
  have "\<not> inclusive_ancestor (next_node d2) (parentNode d2) n c"
    using a(3) by (simp add: par2 nn inclusive_ancestor_upd)
  moreover have "remove_node n d2 = d2"
    by (simp add: remove_node_def par2)
  ultimately have "appendChild c n d2 = Inr (d2\<lparr>parentNode := (parentNode d2)(n \<mapsto> c),
       childNodes := (childNodes d2)(c := childNodes d2 c @ [n])\<rparr>)"
    using a(1,2) by (simp add: appendChild_def nn)
  moreover have "d2\<lparr>parentNode := (parentNode d2)(n \<mapsto> c),
       childNodes := (childNodes d2)(c := childNodes d2 c @ [n])\<rparr> = d1"
  proof (rule DOM.equality)
    show "parentNode (d2\<lparr>parentNode := (parentNode d2)(n \<mapsto> c),
       childNodes := (childNodes d2)(c := childNodes d2 c @ [n])\<rparr>) = parentNode d1"
      by (simp add: par2 eq1)
    show "childNodes (d2\<lparr>parentNode := (parentNode d2)(n \<mapsto> c),
       childNodes := (childNodes d2)(c := childNodes d2 c @ [n])\<rparr>) = childNodes d1"
      by (simp add: kids2 r1 eq1 fun_eq_iff)
  qed (simp_all add: eq2)
  ultimately show ?thesis by (simp add: d2_def)
qed


subsection \<open>The controller with box highlightings\<close>

lemma and_then_eq_Inr: "and_then m f = Inr b \<longleftrightarrow> (\<exists>a. m = Inr a \<and> f a = Inr b)"
  by (cases m) simp_all

lemma LiveSVGElementHighlightings_new_ok:
  assumes "dom_ok (doc w)"
  shows "highlightings_ok (LiveSVGElementHighlightings_new p w)"
    and "boxHighlightings (fst (LiveSVGElementHighlightings_new p w)) = []"
    and "domNode (fst (LiveSVGElementHighlightings_new p w)) = next_node (doc w)"
    and "childNodes (doc (snd (LiveSVGElementHighlightings_new p w))) (next_node (doc w)) = []"
    and "attributes (doc (snd (LiveSVGElementHighlightings_new p w))) = attributes (doc w)"
    and "console (snd (LiveSVGElementHighlightings_new p w)) = console w"
    and "changeListeners (snd (LiveSVGElementHighlightings_new p w)) = changeListeners w @ [CallRefresh]"
    and "observers (snd (LiveSVGElementHighlightings_new p w)) = observers w @
           [(CallRefresh, p, \<lparr>observe_attributes = True, observe_childList = True,
                              observe_characterData = True, observe_subtree = True\<rparr>)]"
proof -
  have fresh: "childNodes (doc w) (next_node (doc w)) = []"
    using dom_ok_fresh(2)[OF assms, of "next_node (doc w)"] by simp
  have "dom_ok (doc w\<lparr>next_node := Suc (next_node (doc w)),
      tagName := (tagName (doc w))(next_node (doc w) \<mapsto> ''g'')\<rparr>)"
    using assms by (simp add: dom_ok_def)
  then show "highlightings_ok (LiveSVGElementHighlightings_new p w)"
    by (simp add: LiveSVGElementHighlightings_new_def createElementNS_def fresh)
qed (simp_all add: LiveSVGElementHighlightings_new_def createElementNS_def
       dom_ok_fresh(2)[OF assms, of "next_node (doc w)"])

lemma highlightings_root_not_child:
  assumes "highlightings_ok (this, w)"
  shows "domNode this \<notin> set (childNodes (doc w) (domNode this))"
proof -
  have "bh_domNode h \<in> set (BoxHighlighting_nodes h)" for h
    by (simp add: BoxHighlighting_nodes_def)
  then have "set (map bh_domNode (boxHighlightings this))
      \<subseteq> set (concat (map BoxHighlighting_nodes (boxHighlightings this)))"
    by auto
  then show ?thesis using assms by auto
qed

lemma appendTo_ok:
  assumes "highlightings_ok s" and "appendTo c s = Inr s'"
  shows "highlightings_ok s'" and "fst s' = fst s"
    and "console (snd s') = console (snd s)"
    and "changeListeners (snd s') = changeListeners (snd s)"
    and "observers (snd s') = observers (snd s)"
    and "attributes (doc (snd s')) = attributes (doc (snd s))"
    and "appendChild c (domNode (fst s)) (doc (snd s)) = Inr (doc (snd s'))"
proof -
  obtain this w where s: "s = (this, w)" by (cases s)
  from assms(2) obtain d' where a: "appendChild c (domNode this) (doc w) = Inr d'"
    and s': "s' = (this, w\<lparr>doc := d'\<rparr>)"
    by (auto simp add: s and_then_eq_Inr)
  have dok: "dom_ok (doc w)" using assms(1) by (simp add: s)
  note eq = appendChild_eq[OF dok a]
  have ne: "domNode this \<noteq> c"
    using appendChild_Inr(3)[OF a] by (cases "next_node (doc w)") auto
  have "childNodes d' (domNode this) = childNodes (doc w) (domNode this)"
    using highlightings_root_not_child[OF assms(1)[unfolded s]] ne by (simp add: eq remove1_idem)
  then show "highlightings_ok s'"
    using assms(1) dom_ok_appendChild[OF dok a] appendChild_sel(1)[OF a] by (simp add: s s')
  show "fst s' = fst s" "console (snd s') = console (snd s)"
    "changeListeners (snd s') = changeListeners (snd s)" "observers (snd s') = observers (snd s)"
    by (simp_all add: s s')
  show "attributes (doc (snd s')) = attributes (doc (snd s))"
    using appendChild_sel(3)[OF a] by (simp add: s s')
  show "appendChild c (domNode (fst s)) (doc (snd s)) = Inr (doc (snd s'))"
    using a by (simp add: s s')
qed

lemma remove_highlightings_ok:
  assumes "highlightings_ok s"
  shows "highlightings_ok (remove_highlightings s)" and "fst (remove_highlightings s) = fst s"
    and "console (snd (remove_highlightings s)) = console (snd s)"
    and "changeListeners (snd (remove_highlightings s)) = changeListeners (snd s)"
    and "observers (snd (remove_highlightings s)) = observers (snd s)"
    and "attributes (doc (snd (remove_highlightings s))) = attributes (doc (snd s))"
    and "doc (snd (remove_highlightings s)) = remove_node (domNode (fst s)) (doc (snd s))"
proof -
  obtain this w where s: "s = (this, w)" by (cases s)
  have dok: "dom_ok (doc w)" using assms(1) by (simp add: s)
  note eq = remove_node_eq[OF dok, of "domNode this"]
  have "childNodes (remove_node (domNode this) (doc w)) (domNode this) = childNodes (doc w) (domNode this)"
    using highlightings_root_not_child[OF assms(1)[unfolded s]] by (simp add: eq remove1_idem)
  then show "highlightings_ok (remove_highlightings s)"
    using assms(1) dom_ok_remove_node[OF dok, of "domNode this"] by (simp add: s)
qed (cases s; simp)+

subsection \<open>Sequences of events\<close>

lemma keeps_highlightings_refl: "keeps_highlightings s s"
  by (simp add: keeps_highlightings_def)

lemma keeps_highlightings_trans:
  assumes "keeps_highlightings s s1" and "keeps_highlightings s1 s2"
  shows "keeps_highlightings s s2"
proof -
  define n where "n = length (boxHighlightings (fst s))"
  define m where "m = length (boxHighlightings (fst s1))"
  have nm: "n \<le> m" using assms(1) by (simp add: keeps_highlightings_def n_def m_def)
  have "map BoxHighlighting_nodes (take n (boxHighlightings (fst s2)))
      = take n (take m (map BoxHighlighting_nodes (boxHighlightings (fst s2))))"
    using nm by (simp add: take_map min_def)
  also have "take m (map BoxHighlighting_nodes (boxHighlightings (fst s2)))
      = map BoxHighlighting_nodes (boxHighlightings (fst s1))"
    using assms(2) by (simp add: keeps_highlightings_def m_def take_map)
  also have "take n (map BoxHighlighting_nodes (boxHighlightings (fst s1)))
      = map BoxHighlighting_nodes (boxHighlightings (fst s))"
    using assms(1) by (simp add: keeps_highlightings_def n_def take_map)
  finally show ?thesis
    using assms by (simp add: keeps_highlightings_def n_def)
qed

lemma refresh_keeps:
  assumes "highlightings_ok s"
  shows "\<exists>s'. refresh str ts scaling s = Inr s' \<and> highlightings_ok s' \<and> keeps_highlightings s s'"
  using refresh_ok[OF assms, of str ts scaling] by (auto simp add: keeps_highlightings_def)

lemma call_listeners_refresh:
  assumes "highlightings_ok s"
  shows "\<exists>s'. call_listeners (refresh str ts scaling) ls s = Inr s'
           \<and> highlightings_ok s' \<and> keeps_highlightings s s'"
  using assms
proof (induction ls arbitrary: s)
  case Nil
  then show ?case by (simp add: keeps_highlightings_refl)
next
  case (Cons l ls)
  from refresh_keeps[OF Cons.prems, of str ts scaling]
  obtain s1 where s1: "refresh str ts scaling s = Inr s1" "highlightings_ok s1" "keeps_highlightings s s1"
    by blast
  from Cons.IH[OF s1(2)]
  obtain s2 where s2: "call_listeners (refresh str ts scaling) ls s1 = Inr s2" "highlightings_ok s2"
    "keeps_highlightings s1 s2"
    by blast
  show ?case
    using s1 s2 keeps_highlightings_trans[OF s1(3) s2(3)] by (cases l) simp
qed

lemma step_ok:
  assumes "highlightings_ok s" and "step str e s = Inr s'"
  shows "highlightings_ok s' \<and> keeps_highlightings s s'"
proof (cases e)
  case (AppendTo c)
  then show ?thesis
    using assms appendTo_ok[OF assms(1), of c s'] by (simp add: keeps_highlightings_def)
next
  case Remove
  then show ?thesis
    using assms remove_highlightings_ok[OF assms(1)] by (auto simp add: keeps_highlightings_def)
next
  case (Change ts scaling)
  then show ?thesis
    using assms call_listeners_refresh[OF assms(1), of str ts scaling "changeListeners (snd s)"] by auto
next
  case (Mutation ts scaling)
  then show ?thesis
    using assms call_listeners_refresh[OF assms(1), of str ts scaling "map fst (observers (snd s))"] by auto
qed

lemma run_ok:
  assumes "highlightings_ok s" and "run str es s = Inr s'"
  shows "highlightings_ok s' \<and> keeps_highlightings s s'"
  using assms
proof (induction es arbitrary: s)
  case Nil
  then show ?case by (simp add: keeps_highlightings_refl)
next
  case (Cons e es)
  then obtain s1 where s1: "step str e s = Inr s1" "run str es s1 = Inr s'"
    by (auto simp add: and_then_eq_Inr)
  from step_ok[OF Cons.prems(1) s1(1)] have "highlightings_ok s1" "keeps_highlightings s s1" by simp_all
  then show ?case using Cons.IH[OF _ s1(2)] keeps_highlightings_trans by blast
qed

lemma run_without_notification:
  assumes "highlightings_ok s" and "run str es s = Inr s'" and "list_all (\<lambda>e. \<not> is_notification e) es"
  shows "fst s' = fst s \<and> attributes (doc (snd s')) = attributes (doc (snd s))
           \<and> console (snd s') = console (snd s)"
  using assms
proof (induction es arbitrary: s)
  case Nil
  then show ?case by simp
next
  case (Cons e es)
  then obtain s1 where s1: "step str e s = Inr s1" "run str es s1 = Inr s'"
    by (auto simp add: and_then_eq_Inr)
  have ok1: "highlightings_ok s1" using step_ok[OF Cons.prems(1) s1(1)] by simp
  have "fst s1 = fst s \<and> attributes (doc (snd s1)) = attributes (doc (snd s))
           \<and> console (snd s1) = console (snd s)"
  proof (cases e)
    case (AppendTo c)
    then show ?thesis using s1(1) appendTo_ok[OF Cons.prems(1), of c s1] by simp
  next
    case Remove
    then show ?thesis using s1(1) remove_highlightings_ok[OF Cons.prems(1)] by auto
  next
    case (Change ts scaling)
    then show ?thesis using Cons.prems(3) by (simp add: is_notification_def)
  next
    case (Mutation ts scaling)
    then show ?thesis using Cons.prems(3) by (simp add: is_notification_def)
  qed
  then show ?case using Cons.IH[OF ok1 s1(2)] Cons.prems(3) by simp
qed

section \<open>Refreshing the box traces\<close>

subsection \<open>One target\<close>

lemma BoxTrace_setOpacity_sel [simp]:
  "next_node (BoxTrace_setOpacity str v t d) = next_node d"
  "tagName (BoxTrace_setOpacity str v t d) = tagName d"
  "parentNode (BoxTrace_setOpacity str v t d) = parentNode d"
  "childNodes (BoxTrace_setOpacity str v t d) = childNodes d"
  "style (BoxTrace_setOpacity str v t d) = style d"
  by (simp_all add: BoxTrace_setOpacity_def)

lemma try_trace_sel [simp]:
  "next_node (try_trace str box t d) = next_node d"
  "tagName (try_trace str box t d) = tagName d"
  "parentNode (try_trace str box t d) = parentNode d"
  "childNodes (try_trace str box t d) = childNodes d"
  "style (try_trace str box t d) = style d"
  by (simp_all add: try_trace_def)

lemma try_trace_other_node:
  assumes "n \<notin> set (BoxTrace_nodes t)"
  shows "attributes (try_trace str box t d) n = attributes d n"
  using assms by (simp add: try_trace_def BoxTrace_setOpacity_def trace_def Let_def BoxTrace_nodes_def)

lemma try_trace_effect:
  "traced str box t (try_trace str box t d)"
  "opacity (bt_domNode t) (try_trace str box t d) = Some (str 1)"
  by (simp_all add: traced_def opacity_def try_trace_def BoxTrace_setOpacity_def trace_d)

lemma BoxTrace_view_eq:
  "BoxTrace_view t d = BoxTrace_view t' d' \<longleftrightarrow>
     t = t' \<and> (\<forall>n \<in> set (BoxTrace_nodes t). attributes d n = attributes d' n)"
  by (auto simp add: BoxTrace_view_def)

lemma traced_view:
  assumes "BoxTrace_view t d = BoxTrace_view t' d'"
  shows "traced str box t d = traced str box t' d'"
    and "opacity (bt_domNode t) d = opacity (bt_domNode t') d'"
proof -
  from assms have t: "t' = t" and a: "\<And>n. n \<in> set (BoxTrace_nodes t) \<Longrightarrow> attributes d n = attributes d' n"
    by (simp_all add: BoxTrace_view_eq)
  have g: "getAttribute n k d = getAttribute n k d'" if "n \<in> set (BoxTrace_nodes t)" for n k
    using a[OF that] by (simp add: getAttribute_def)
  have m: "bt_domNode t \<in> set (BoxTrace_nodes t)" "lightDashing t \<in> set (BoxTrace_nodes t)"
    "darkDashing t \<in> set (BoxTrace_nodes t)"
    by (simp_all add: BoxTrace_nodes_def)
  show "traced str box t d = traced str box t' d'"
    by (simp add: traced_def t g[OF m(2)] g[OF m(3)])
  show "opacity (bt_domNode t) d = opacity (bt_domNode t') d'"
    by (simp add: opacity_def t g[OF m(1)])
qed

subsection \<open>Creating box traces\<close>

lemma BoxTrace_new_ok:
  assumes "dom_ok d" and N: "N = next_node d"
  shows "\<exists>t d'. BoxTrace_new d = Inr (t, d')
     \<and> BoxTrace_nodes t = [N, Suc N, Suc (Suc N)]
     \<and> dom_ok d'
     \<and> next_node d' = Suc (Suc (Suc N))
     \<and> (\<forall>n < N. parentNode d' n = parentNode d n \<and> childNodes d' n = childNodes d n
                 \<and> attributes d' n = attributes d n)
     \<and> parentNode d' N = None"
proof -
  from BoxTrace_new_eq[OF assms] obtain d' where
    d': "BoxTrace_new d = Inr (\<lparr>bt_domNode = N, lightDashing = Suc N, darkDashing = Suc (Suc N)\<rparr>, d')"
     "next_node d' = Suc (Suc (Suc N))"
     "parentNode d' = (parentNode d)(Suc N \<mapsto> N, Suc (Suc N) \<mapsto> N)"
     "childNodes d' = (childNodes d)(N := [Suc N, Suc (Suc N)])"
     "\<forall>n < N. attributes d' n = attributes d n"
    by blast
  have "dom_ok d'"
    by (rule dom_ok_new_group[OF assms(1) N[symmetric], where cs = "[Suc N, Suc (Suc N)]"])
       (auto simp add: d')
  moreover have "parentNode d N = None" using dom_ok_fresh(1)[OF assms(1)] N by simp
  ultimately show ?thesis
    using d' by (simp add: BoxTrace_nodes_def)
qed

lemma create_boxTrace_ok:
  assumes ok: "traces_ok (this, w)"
  shows "\<exists>t d'. create_boxTrace e i (this, w) =
            Inr (this\<lparr>boxTraces := boxTraces this @ [t]\<rparr>, w\<lparr>doc := d'\<rparr>)
      \<and> traces_ok (this\<lparr>boxTraces := boxTraces this @ [t]\<rparr>, w\<lparr>doc := d'\<rparr>)
      \<and> next_node (doc w) \<le> next_node d'
      \<and> (\<forall>n < next_node (doc w). attributes d' n = attributes (doc w) n)"
proof -
  define N where "N = next_node (doc w)"
  define r where "r = tr_domNode this"
  from ok have dok: "dom_ok (doc w)" and rN: "r < N"
    and kids: "childNodes (doc w) r = map bt_domNode (boxTraces this)"
    and dist: "distinct (r # concat (map BoxTrace_nodes (boxTraces this)))"
    and bound: "\<forall>n \<in> set (concat (map BoxTrace_nodes (boxTraces this))). n < N"
    by (simp_all add: N_def r_def)
  from BoxTrace_new_ok[OF dok N_def] obtain t d3 where
    new: "BoxTrace_new (doc w) = Inr (t, d3)"
    and nodes: "BoxTrace_nodes t = [N, Suc N, Suc (Suc N)]"
    and ok3: "dom_ok d3"
    and next3: "next_node d3 = Suc (Suc (Suc N))"
    and old3: "\<forall>n < N. parentNode d3 n = parentNode (doc w) n \<and> childNodes d3 n = childNodes (doc w) n
                 \<and> attributes d3 n = attributes (doc w) n"
    and parN: "parentNode d3 N = None"
    by blast
  have g: "bt_domNode t = N" using nodes by (simp add: BoxTrace_nodes_def)
  have "\<not> inclusive_ancestor (next_node d3) (parentNode d3) N r"
  proof (rule inclusive_ancestor_old[where N = N])
    fix m p assume "m < N" "parentNode d3 m = Some p"
    then have "parentNode (doc w) m = Some p" using old3 by simp
    then show "p < N" using dom_ok_parent_exists[OF dok] by (simp add: N_def)
  qed (use rN in simp_all)
  then have app: "appendChild r N d3 =
     Inr (d3\<lparr>parentNode := (parentNode d3)(N \<mapsto> r),
            childNodes := (childNodes d3)(r := childNodes d3 r @ [N])\<rparr>)"
    using rN parN by (intro appendChild_parentless) (simp_all add: next3)
  define d' where "d' = d3\<lparr>parentNode := (parentNode d3)(N \<mapsto> r),
            childNodes := (childNodes d3)(r := childNodes d3 r @ [N])\<rparr>"
  have ok': "dom_ok d'" using dom_ok_appendChild[OF ok3 app] by (simp add: d'_def)
  have eq: "create_boxTrace e i (this, w) =
            Inr (this\<lparr>boxTraces := boxTraces this @ [t]\<rparr>, w\<lparr>doc := d'\<rparr>)"
    using new app by (simp add: BoxTrace_appendTo_def g r_def d'_def)
  have oldN: "n < N" if "n \<in> set (concat (map BoxTrace_nodes (boxTraces this)))" for n
    using bound that by blast
  have newN: "N \<le> n" if "n \<in> set (BoxTrace_nodes t)" for n
    using that by (auto simp add: nodes)
  have disj: "set (concat (map BoxTrace_nodes (boxTraces this))) \<inter> set (BoxTrace_nodes t) = {}"
    using oldN newN by fastforce
  have rh: "r \<notin> set (BoxTrace_nodes t)" using newN rN by fastforce
  have dh: "distinct (BoxTrace_nodes t)" by (simp add: nodes)
  have inv: "traces_ok (this\<lparr>boxTraces := boxTraces this @ [t]\<rparr>, w\<lparr>doc := d'\<rparr>)"
    unfolding traces_ok.simps
  proof (intro conjI)
    show "dom_ok (doc (w\<lparr>doc := d'\<rparr>))" using ok' by simp
    show "tr_domNode (this\<lparr>boxTraces := boxTraces this @ [t]\<rparr>) < next_node (doc (w\<lparr>doc := d'\<rparr>))"
      using rN by (simp add: d'_def next3 r_def)
    show "childNodes (doc (w\<lparr>doc := d'\<rparr>)) (tr_domNode (this\<lparr>boxTraces := boxTraces this @ [t]\<rparr>))
          = map bt_domNode (boxTraces (this\<lparr>boxTraces := boxTraces this @ [t]\<rparr>))"
      using rN kids old3 by (simp add: d'_def g r_def)
    show "distinct (tr_domNode (this\<lparr>boxTraces := boxTraces this @ [t]\<rparr>) #
            concat (map BoxTrace_nodes (boxTraces (this\<lparr>boxTraces := boxTraces this @ [t]\<rparr>))))"
      using dist disj rh dh by (simp add: r_def)
    show "\<forall>n\<in>set (concat (map BoxTrace_nodes (boxTraces (this\<lparr>boxTraces := boxTraces this @ [t]\<rparr>)))).
            n < next_node (doc (w\<lparr>doc := d'\<rparr>))"
    proof
      fix n assume "n \<in> set (concat (map BoxTrace_nodes (boxTraces (this\<lparr>boxTraces := boxTraces this @ [t]\<rparr>))))"
      then have "n \<in> set (concat (map BoxTrace_nodes (boxTraces this))) \<or> n \<in> set (BoxTrace_nodes t)"
        by auto
      then show "n < next_node (doc (w\<lparr>doc := d'\<rparr>))"
      proof
        assume "n \<in> set (concat (map BoxTrace_nodes (boxTraces this)))"
        then have "n < N" by (rule oldN)
        then show ?thesis by (simp add: d'_def next3)
      next
        assume "n \<in> set (BoxTrace_nodes t)"
        then show ?thesis by (auto simp add: d'_def next3 nodes)
      qed
    qed
  qed
  show ?thesis
    using eq inv old3 rN
    by (intro exI[of _ t] exI[of _ d']) (auto simp add: d'_def next3 N_def[symmetric] r_def[symmetric])
qed

lemma create_boxTraces_ok:
  assumes "traces_ok s"
  shows "\<exists>s'. forEach_throwing_from i create_boxTrace xs s = Inr s'
    \<and> traces_ok s'
    \<and> (\<exists>new. boxTraces (fst s') = boxTraces (fst s) @ new \<and> length new = length xs)
    \<and> tr_domNode (fst s') = tr_domNode (fst s)
    \<and> console (snd s') = console (snd s)
    \<and> changeListeners (snd s') = changeListeners (snd s)
    \<and> observers (snd s') = observers (snd s)
    \<and> next_node (doc (snd s)) \<le> next_node (doc (snd s'))
    \<and> (\<forall>n < next_node (doc (snd s)). attributes (doc (snd s')) n = attributes (doc (snd s)) n)"
  using assms
proof (induction xs arbitrary: i s)
  case Nil
  then show ?case by simp
next
  case (Cons x xs)
  obtain this w where s: "s = (this, w)" by (cases s)
  from create_boxTrace_ok[of this w x i] Cons.prems
  obtain t d1 where c: "create_boxTrace x i (this, w) =
            Inr (this\<lparr>boxTraces := boxTraces this @ [t]\<rparr>, w\<lparr>doc := d1\<rparr>)"
      and ok1: "traces_ok (this\<lparr>boxTraces := boxTraces this @ [t]\<rparr>, w\<lparr>doc := d1\<rparr>)"
      and n1: "next_node (doc w) \<le> next_node d1"
      and a1: "\<forall>n < next_node (doc w). attributes d1 n = attributes (doc w) n"
    unfolding s by blast
  define s1 where "s1 = (this\<lparr>boxTraces := boxTraces this @ [t]\<rparr>, w\<lparr>doc := d1\<rparr>)"
  from Cons.IH[of s1 "Suc i"] ok1
  obtain s' new where r: "forEach_throwing_from (Suc i) create_boxTrace xs s1 = Inr s'"
    and ok': "traces_ok s'"
    and new: "boxTraces (fst s') = boxTraces (fst s1) @ new" "length new = length xs"
    and frame: "tr_domNode (fst s') = tr_domNode (fst s1)"
      "console (snd s') = console (snd s1)" "changeListeners (snd s') = changeListeners (snd s1)"
      "observers (snd s') = observers (snd s1)"
    and n': "next_node (doc (snd s1)) \<le> next_node (doc (snd s'))"
    and a': "\<forall>n < next_node (doc (snd s1)). attributes (doc (snd s')) n = attributes (doc (snd s1)) n"
    unfolding s1_def by blast
  have "forEach_throwing_from i create_boxTrace (x # xs) s = Inr s'"
    using c r by (simp add: s s1_def)
  moreover have "boxTraces (fst s') = boxTraces (fst s) @ (t # new) \<and> length (t # new) = length (x # xs)"
    using new by (simp add: s s1_def)
  moreover have "\<forall>n < next_node (doc (snd s)). attributes (doc (snd s')) n = attributes (doc (snd s)) n"
    using a1 a' n1 by (simp add: s s1_def)
  moreover have "next_node (doc (snd s)) \<le> next_node (doc (snd s'))"
    using n1 n' by (simp add: s s1_def)
  ultimately show ?case
    using ok' frame by (intro exI[of _ s']) (auto simp add: s s1_def)
qed

subsection \<open>The loop over the targets\<close>

lemma traces_other_nodes:
  assumes "traces_ok (this, w)" "i \<noteq> k" "i < length (boxTraces this)"
    "k < length (boxTraces this)" "n \<in> set (BoxTrace_nodes (boxTraces this ! k))"
  shows "n \<notin> set (BoxTrace_nodes (boxTraces this ! i))"
proof -
  have "distinct (concat (map BoxTrace_nodes (boxTraces this)))"
    using assms(1) by simp
  from distinct_concat_nth[OF this assms(2), of ] assms(3,4,5)
  show ?thesis by fastforce
qed

lemma trace_target_unfold:
  "trace_target str e i (this, w) =
     (if i < length (boxTraces this) then
        (case e of
           Inr box \<Rightarrow> (this, w\<lparr>doc := try_trace str box (boxTraces this ! i) (doc w)\<rparr>)
         | Inl err \<Rightarrow> (this, w\<lparr>console := console w @ [err]\<rparr>))
      else (this, w\<lparr>console := console w @ [TypeError]\<rparr>))"
  by (simp split: sum.split)

declare trace_target.simps [simp del]

lemma trace_target_frame:
  "fst (trace_target str e i s) = fst s"
  "changeListeners (snd (trace_target str e i s)) = changeListeners (snd s)"
  "observers (snd (trace_target str e i s)) = observers (snd s)"
  "next_node (doc (snd (trace_target str e i s))) = next_node (doc (snd s))"
  "parentNode (doc (snd (trace_target str e i s))) = parentNode (doc (snd s))"
  "childNodes (doc (snd (trace_target str e i s))) = childNodes (doc (snd s))"
  by (cases s; simp add: trace_target_unfold split: sum.split)+

lemma trace_target_ok:
  assumes "traces_ok s"
  shows "traces_ok (trace_target str e i s)"
proof -
  obtain this w where s: "s = (this, w)" by (cases s)
  obtain this' w' where s': "trace_target str e i (this, w) = (this', w')"
    by (cases "trace_target str e i (this, w)")
  have f: "this' = this" "next_node (doc w') = next_node (doc w)" "parentNode (doc w') = parentNode (doc w)"
    "childNodes (doc w') = childNodes (doc w)"
    using trace_target_frame(1,4,5,6)[of str e i "(this, w)"] by (simp_all add: s')
  have "dom_ok (doc w') = dom_ok (doc w)" by (rule dom_ok_cong) (simp_all add: f)
  then show ?thesis using assms by (simp add: s s' f)
qed

lemma trace_target_console:
  "i < length (boxTraces (fst s)) \<Longrightarrow>
     console (snd (trace_target str e i s)) = console (snd s) @ thrown [e]"
  by (cases s) (simp add: trace_target_unfold thrown_def split: sum.split)

lemma trace_target_other_attributes:
  assumes "i < length (boxTraces (fst s)) \<longrightarrow> n \<notin> set (BoxTrace_nodes (boxTraces (fst s) ! i))"
  shows "attributes (doc (snd (trace_target str e i s))) n = attributes (doc (snd s)) n"
  using assms
  by (cases s) (simp add: trace_target_unfold try_trace_other_node split: sum.split)

lemma trace_target_other_slot:
  assumes "traces_ok s" "k \<noteq> i" "k < length (boxTraces (fst s))"
  shows "trace_at k (trace_target str e i s) = trace_at k s"
proof -
  obtain this w where s: "s = (this, w)" by (cases s)
  have "attributes (doc (snd (trace_target str e i (this, w)))) n = attributes (doc w) n"
    if "n \<in> set (BoxTrace_nodes (boxTraces this ! k))" for n
  proof -
    have "i < length (boxTraces this) \<longrightarrow> n \<notin> set (BoxTrace_nodes (boxTraces this ! i))"
      using traces_other_nodes[of this w i k n] assms that by (simp add: s)
    then show ?thesis
      using trace_target_other_attributes[of i "(this, w)" n str e] by simp
  qed
  then have "map (attributes (doc (snd (trace_target str e i (this, w)))))
        (BoxTrace_nodes (boxTraces this ! k))
      = map (attributes (doc w)) (BoxTrace_nodes (boxTraces this ! k))"
    by simp
  then show ?thesis
    by (simp add: trace_at_def BoxTrace_view_def trace_target_frame s)
qed

lemma trace_target_Inr:
  assumes "i < length (boxTraces (fst s))"
  shows "traced str box (boxTraces (fst s) ! i) (doc (snd (trace_target str (Inr box) i s)))"
    and "opacity (bt_domNode (boxTraces (fst s) ! i)) (doc (snd (trace_target str (Inr box) i s)))
           = Some (str 1)"
  using assms by (cases s; simp add: trace_target_unfold try_trace_effect)+

lemma trace_target_Inl:
  assumes "i < length (boxTraces (fst s))"
  shows "trace_at i (trace_target str (Inl err) i s) = trace_at i s"
  using assms by (cases s) (simp add: trace_target_unfold trace_at_def)

lemma trace_targets_ok:
  assumes "traces_ok s"
  shows "traces_ok (forEach_from i (trace_target str) ts s)
    \<and> fst (forEach_from i (trace_target str) ts s) = fst s
    \<and> changeListeners (snd (forEach_from i (trace_target str) ts s)) = changeListeners (snd s)
    \<and> observers (snd (forEach_from i (trace_target str) ts s)) = observers (snd s)"
  by (rule forEach_from_inv[where I = "\<lambda>s'. traces_ok s' \<and> fst s' = fst s
    \<and> changeListeners (snd s') = changeListeners (snd s)
    \<and> observers (snd s') = observers (snd s)"])
    (simp_all add: assms trace_target_ok trace_target_frame)

lemma trace_targets_console:
  "i + length ts \<le> length (boxTraces (fst s)) \<Longrightarrow>
     console (snd (forEach_from i (trace_target str) ts s)) = console (snd s) @ thrown ts"
proof (induction ts arbitrary: i s)
  case Nil
  show ?case by (simp add: thrown_def)
next
  case (Cons e ts)
  have "console (snd (forEach_from (Suc i) (trace_target str) ts (trace_target str e i s)))
      = console (snd (trace_target str e i s)) @ thrown ts"
    using Cons.prems by (intro Cons.IH) (simp add: trace_target_frame)
  also have "console (snd (trace_target str e i s)) = console (snd s) @ thrown [e]"
    using Cons.prems by (intro trace_target_console) simp
  finally show ?case by (simp add: thrown_def)
qed

lemma trace_targets_slot_outside:
  assumes "traces_ok s" "k < length (boxTraces (fst s))" "k < i \<or> i + length ts \<le> k"
  shows "trace_at k (forEach_from i (trace_target str) ts s) = trace_at k s"
  by (rule forEach_from_frame[where k = k
      and I = "\<lambda>s'. traces_ok s' \<and> fst s' = fst s"])
    (simp_all add: assms trace_target_ok trace_target_frame trace_target_other_slot)

lemma trace_targets_at:
  assumes "traces_ok s" "k < length (boxTraces (fst s))" "i \<le> k" "k < i + length ts"
  obtains s0 where "traces_ok s0" "fst s0 = fst s"
    "trace_at k s0 = trace_at k s"
    "trace_at k (forEach_from i (trace_target str) ts s)
       = trace_at k (trace_target str (ts ! (k - i)) k s0)"
proof -
  have "\<exists>s0. (traces_ok s0 \<and> fst s0 = fst s)
      \<and> trace_at k s0 = trace_at k s
      \<and> trace_at k (forEach_from i (trace_target str) ts s)
          = trace_at k (trace_target str (ts ! (k - i)) k s0)"
    by (rule forEach_from_at)
      (simp_all add: assms trace_target_ok trace_target_frame trace_target_other_slot)
  then show thesis using that by blast
qed

lemma trace_targets_slot_Inl:
  assumes "traces_ok s" "k < length (boxTraces (fst s))" "i \<le> k" "k < i + length ts"
    and "ts ! (k - i) = Inl err"
  shows "trace_at k (forEach_from i (trace_target str) ts s) = trace_at k s"
proof -
  from trace_targets_at[OF assms(1-4), of str]
  obtain s0 where s0: "fst s0 = fst s" "trace_at k s0 = trace_at k s"
    "trace_at k (forEach_from i (trace_target str) ts s)
       = trace_at k (trace_target str (ts ! (k - i)) k s0)"
    by blast
  have "k < length (boxTraces (fst s0))" using assms(2) s0(1) by simp
  from trace_target_Inl[OF this, of str err] show ?thesis
    using s0(2,3) by (simp add: assms(5))
qed

lemma trace_targets_slot_Inr:
  assumes "traces_ok s" "k < length (boxTraces (fst s))" "i \<le> k" "k < i + length ts"
    and "ts ! (k - i) = Inr box"
  shows "traced str box (boxTraces (fst s) ! k) (doc (snd (forEach_from i (trace_target str) ts s)))"
    and "opacity (bt_domNode (boxTraces (fst s) ! k)) (doc (snd (forEach_from i (trace_target str) ts s)))
           = Some (str 1)"
proof -
  define s' where "s' = forEach_from i (trace_target str) ts s"
  from trace_targets_at[OF assms(1-4), of str]
  obtain s0 where s0: "fst s0 = fst s"
    and v': "trace_at k s' = trace_at k (trace_target str (ts ! (k - i)) k s0)"
    unfolding s'_def by blast
  have k0: "k < length (boxTraces (fst s0))" using assms(2) s0 by simp
  define sf where "sf = trace_target str (Inr box) k s0"
  have fs': "fst s' = fst s" using trace_targets_ok[OF assms(1), of i str ts] by (simp add: s'_def)
  have fsf: "fst sf = fst s" by (simp add: sf_def trace_target_frame s0)
  have v: "BoxTrace_view (boxTraces (fst s) ! k) (doc (snd s'))
         = BoxTrace_view (boxTraces (fst s) ! k) (doc (snd sf))"
    using v' assms(5) by (simp add: trace_at_def sf_def[symmetric] fs' fsf)
  note f = trace_target_Inr[OF k0, of str box, folded sf_def, unfolded s0]
  show "traced str box (boxTraces (fst s) ! k) (doc (snd s'))"
    using traced_view(1)[OF v, of str box] f(1) by simp
  show "opacity (bt_domNode (boxTraces (fst s) ! k)) (doc (snd s')) = Some (str 1)"
    using traced_view(2)[OF v] f(2) by simp
qed

subsection \<open>The loop that hides the extra box traces\<close>

lemma hide_boxTraces_eq:
  "forEach_from i (hide_boxTrace str) ms (this, w) =
     (this, w\<lparr>doc := setAttributes (map (\<lambda>m. (bt_domNode m, ''opacity'', str 0)) ms) (doc w)\<rparr>)"
  by (induction ms arbitrary: i w) (simp_all add: BoxTrace_setOpacity_def)

subsection \<open>A refresh\<close>

lemma refresh_traces_ok:
  assumes ok: "traces_ok s"
  shows "\<exists>s'. refresh_traces str ts s = Inr s'
     \<and> traces_ok s'
     \<and> length (boxTraces (fst s')) = max (length (boxTraces (fst s))) (length ts)
     \<and> take (length (boxTraces (fst s))) (boxTraces (fst s')) = boxTraces (fst s)
     \<and> tr_domNode (fst s') = tr_domNode (fst s)
     \<and> changeListeners (snd s') = changeListeners (snd s)
     \<and> observers (snd s') = observers (snd s)
     \<and> console (snd s') = console (snd s) @ thrown ts
     \<and> (\<forall>k < length ts. case ts ! k of
           Inr box \<Rightarrow>
             traced str box (boxTraces (fst s') ! k) (doc (snd s'))
             \<and> opacity (bt_domNode (boxTraces (fst s') ! k)) (doc (snd s')) = Some (str 1)
         | Inl err \<Rightarrow>
             k < length (boxTraces (fst s)) \<longrightarrow> trace_at k s' = trace_at k s)
     \<and> (\<forall>k. length ts \<le> k \<and> k < length (boxTraces (fst s')) \<longrightarrow>
           opacity (bt_domNode (boxTraces (fst s') ! k)) (doc (snd s')) = Some (str 0))"
proof -
  define pool where "pool = boxTraces (fst s)"
  from create_boxTraces_ok[OF ok, of 0 "drop (length pool) ts"]
  obtain s1 new where grow: "forEach_throwing_from 0 create_boxTrace (drop (length pool) ts) s = Inr s1"
    and ok1: "traces_ok s1"
    and pool1: "boxTraces (fst s1) = pool @ new" and new: "length new = length ts - length pool"
    and frame1: "tr_domNode (fst s1) = tr_domNode (fst s)"
      "console (snd s1) = console (snd s)" "changeListeners (snd s1) = changeListeners (snd s)"
      "observers (snd s1) = observers (snd s)"
    and a1: "\<forall>n < next_node (doc (snd s)). attributes (doc (snd s1)) n = attributes (doc (snd s)) n"
    unfolding pool_def by auto
  have len1: "length (boxTraces (fst s1)) = max (length pool) (length ts)"
    using pool1 new by simp
  define s2 where "s2 = forEach_from 0 (trace_target str) ts s1"
  note u = trace_targets_ok[OF ok1, of 0 str ts, folded s2_def]
  have ok2: "traces_ok s2" using u by simp
  have fst2: "fst s2 = fst s1" using u by simp
  define hide where "hide = map (\<lambda>m. (bt_domNode m, ''opacity'', str 0)) (drop (length ts) (boxTraces (fst s2)))"
  define s3 where "s3 = (fst s2, (snd s2)\<lparr>doc := setAttributes hide (doc (snd s2))\<rparr>)"
  have "forEach_from 0 (hide_boxTrace str) (drop (length ts) (boxTraces (fst s2))) s2 = s3"
    using hide_boxTraces_eq[of 0 str "drop (length ts) (boxTraces (fst s2))" "fst s2" "snd s2"]
    by (simp add: s3_def hide_def)
  then have r: "refresh_traces str ts s = Inr s3"
    unfolding refresh_traces_def forEach_throwing_def forEach_def pool_def[symmetric] grow and_then_Inr Let_def
      s2_def[symmetric]
    by simp
  have sel3: "next_node (doc (snd s3)) = next_node (doc (snd s2))"
    "parentNode (doc (snd s3)) = parentNode (doc (snd s2))"
    "childNodes (doc (snd s3)) = childNodes (doc (snd s2))"
    "fst s3 = fst s1"
    by (simp_all add: s3_def fst2)
  have "dom_ok (doc (snd s3)) = dom_ok (doc (snd s2))"
    by (rule dom_ok_cong) (simp_all add: sel3)
  then have ok3: "traces_ok s3"
    using ok2 by (cases s2) (simp add: s3_def)
  have hide_nodes: "fst ` set hide = bt_domNode ` set (drop (length ts) (boxTraces (fst s1)))"
    by (force simp add: hide_def fst2)
  have keep: "trace_at k s3 = trace_at k s2" if k: "k < length ts" for k
  proof -
    have k1: "k < length (boxTraces (fst s1))" using k len1 by simp
    have "attributes (setAttributes hide (doc (snd s2))) n = attributes (doc (snd s2)) n"
      if n: "n \<in> set (BoxTrace_nodes (boxTraces (fst s1) ! k))" for n
    proof (rule attributes_setAttributes_other)
      show "n \<notin> fst ` set hide"
      proof
        assume "n \<in> fst ` set hide"
        then obtain m where m: "m \<in> set (drop (length ts) (boxTraces (fst s1)))" "n = bt_domNode m"
          unfolding hide_nodes by blast
        then obtain j where j: "j < length (boxTraces (fst s1)) - length ts"
          "m = boxTraces (fst s1) ! (length ts + j)"
          by (auto simp add: in_set_conv_nth)
        have "n \<in> set (BoxTrace_nodes (boxTraces (fst s1) ! (length ts + j)))"
          using m(2) j(2) by (simp add: BoxTrace_nodes_def)
        moreover have "n \<notin> set (BoxTrace_nodes (boxTraces (fst s1) ! (length ts + j)))"
          using traces_other_nodes[of "fst s1" "snd s1" "length ts + j" k n] ok1 k k1 j(1) n
          by simp
        ultimately show False by simp
      qed
    qed
    then show ?thesis
      by (simp add: trace_at_def BoxTrace_view_def s3_def fst2)
  qed
  have old: "trace_at k s1 = trace_at k s" if k: "k < length pool" for k
  proof -
    have same: "boxTraces (fst s1) ! k = pool ! k" using k pool1 by (simp add: nth_append)
    have "attributes (doc (snd s1)) n = attributes (doc (snd s)) n"
      if n: "n \<in> set (BoxTrace_nodes (pool ! k))" for n
    proof -
      have "n \<in> set (concat (map BoxTrace_nodes pool))" using n k by auto
      then have "n < next_node (doc (snd s))" using ok by (cases s) (auto simp add: pool_def)
      then show ?thesis using a1 by simp
    qed
    then show ?thesis
      by (simp add: trace_at_def BoxTrace_view_def same pool_def[symmetric])
  qed
  have slots: "case ts ! k of
           Inr box \<Rightarrow>
             traced str box (boxTraces (fst s3) ! k) (doc (snd s3))
             \<and> opacity (bt_domNode (boxTraces (fst s3) ! k)) (doc (snd s3)) = Some (str 1)
         | Inl err \<Rightarrow> k < length pool \<longrightarrow> trace_at k s3 = trace_at k s"
    if k: "k < length ts" for k
  proof -
    have k1: "k < length (boxTraces (fst s1))" using k len1 by simp
    have k0: "(0::nat) \<le> k" "k < 0 + length ts" using k by simp_all
    have v: "BoxTrace_view (boxTraces (fst s1) ! k) (doc (snd s3))
           = BoxTrace_view (boxTraces (fst s1) ! k) (doc (snd s2))"
      using keep[OF k] by (simp add: trace_at_def sel3 fst2)
    show ?thesis
    proof (cases "ts ! k")
      case (Inl err)
      then have "ts ! (k - 0) = Inl err" by simp
      from trace_targets_slot_Inl[OF ok1 k1 k0 this, of str]
      show ?thesis using Inl keep[OF k] old[of k] by (simp add: s2_def)
    next
      case (Inr box)
      then have "ts ! (k - 0) = Inr box" by simp
      note f = trace_targets_slot_Inr[OF ok1 k1 k0 this, of str, folded s2_def]
      show ?thesis
        using traced_view(1)[OF v, of str box] traced_view(2)[OF v] f Inr by (simp add: sel3)
    qed
  qed
  have extra: "opacity (bt_domNode (boxTraces (fst s3) ! k)) (doc (snd s3)) = Some (str 0)"
    if k: "length ts \<le> k" "k < length (boxTraces (fst s3))" for k
  proof -
    have k1: "k < length (boxTraces (fst s1))" using k by (simp add: sel3)
    have "boxTraces (fst s1) ! k \<in> set (drop (length ts) (boxTraces (fst s1)))"
      using k(1) k1 by (auto simp add: in_set_conv_nth intro!: exI[of _ "k - length ts"])
    then have "bt_domNode (boxTraces (fst s1) ! k)
        \<in> set (map bt_domNode (drop (length ts) (boxTraces (fst s1))))"
      by simp
    from hidden_opacity[OF this, of "str 0" "doc (snd s2)"]
    show ?thesis
      by (simp add: opacity_def s3_def hide_def comp_def fst2)
  qed
  have F1: "length (boxTraces (fst s3)) = max (length (boxTraces (fst s))) (length ts)"
    using len1 by (simp add: sel3 pool_def)
  have F2: "take (length (boxTraces (fst s))) (boxTraces (fst s3)) = boxTraces (fst s)"
    using pool1 by (simp add: sel3 pool_def)
  have F3: "tr_domNode (fst s3) = tr_domNode (fst s)"
    "changeListeners (snd s3) = changeListeners (snd s)" "observers (snd s3) = observers (snd s)"
    using u frame1 by (simp_all add: s3_def)
  have cons: "console (snd s3) = console (snd s) @ thrown ts"
    using trace_targets_console[of 0 ts s1 str] len1 frame1
    by (simp add: s3_def s2_def[symmetric])
  have F4: "\<forall>k < length ts. case ts ! k of
           Inr box \<Rightarrow>
             traced str box (boxTraces (fst s3) ! k) (doc (snd s3))
             \<and> opacity (bt_domNode (boxTraces (fst s3) ! k)) (doc (snd s3)) = Some (str 1)
         | Inl err \<Rightarrow>
             k < length (boxTraces (fst s)) \<longrightarrow> trace_at k s3 = trace_at k s"
    using slots unfolding pool_def by blast
  have F5: "\<forall>k. length ts \<le> k \<and> k < length (boxTraces (fst s3)) \<longrightarrow>
           opacity (bt_domNode (boxTraces (fst s3) ! k)) (doc (snd s3)) = Some (str 0)"
    using extra by blast
  show ?thesis
    by (rule exI[of _ s3]) (intro conjI r ok3 F1 F2 F3 cons F4 F5)
qed

subsection \<open>The controller with box traces\<close>

lemma LiveSVGElementTraces_new_ok:
  assumes "dom_ok (doc w)"
  shows "traces_ok (LiveSVGElementTraces_new p w)"
    and "boxTraces (fst (LiveSVGElementTraces_new p w)) = []"
    and "tr_domNode (fst (LiveSVGElementTraces_new p w)) = next_node (doc w)"
    and "childNodes (doc (snd (LiveSVGElementTraces_new p w))) (next_node (doc w)) = []"
    and "attributes (doc (snd (LiveSVGElementTraces_new p w))) = attributes (doc w)"
    and "console (snd (LiveSVGElementTraces_new p w)) = console w"
    and "changeListeners (snd (LiveSVGElementTraces_new p w)) = changeListeners w @ [CallRefresh]"
    and "observers (snd (LiveSVGElementTraces_new p w)) = observers w @
           [(CallRefresh, p, \<lparr>observe_attributes = True, observe_childList = True,
                              observe_characterData = True, observe_subtree = True\<rparr>)]"
proof -
  have fresh: "childNodes (doc w) (next_node (doc w)) = []"
    using dom_ok_fresh(2)[OF assms, of "next_node (doc w)"] by simp
  have "dom_ok (doc w\<lparr>next_node := Suc (next_node (doc w)),
      tagName := (tagName (doc w))(next_node (doc w) \<mapsto> ''g'')\<rparr>)"
    using assms by (simp add: dom_ok_def)
  then show "traces_ok (LiveSVGElementTraces_new p w)"
    by (simp add: LiveSVGElementTraces_new_def createElementNS_def fresh)
qed (simp_all add: LiveSVGElementTraces_new_def createElementNS_def
       dom_ok_fresh(2)[OF assms, of "next_node (doc w)"])

lemma traces_root_not_child:
  assumes "traces_ok (this, w)"
  shows "tr_domNode this \<notin> set (childNodes (doc w) (tr_domNode this))"
proof -
  have "bt_domNode t \<in> set (BoxTrace_nodes t)" for t
    by (simp add: BoxTrace_nodes_def)
  then have "set (map bt_domNode (boxTraces this))
      \<subseteq> set (concat (map BoxTrace_nodes (boxTraces this)))"
    by auto
  then show ?thesis using assms by auto
qed

lemma appendTo_traces_ok:
  assumes "traces_ok s" and "appendTo_traces c s = Inr s'"
  shows "traces_ok s'" and "fst s' = fst s"
    and "console (snd s') = console (snd s)"
    and "changeListeners (snd s') = changeListeners (snd s)"
    and "observers (snd s') = observers (snd s)"
    and "attributes (doc (snd s')) = attributes (doc (snd s))"
    and "appendChild c (tr_domNode (fst s)) (doc (snd s)) = Inr (doc (snd s'))"
proof -
  obtain this w where s: "s = (this, w)" by (cases s)
  from assms(2) obtain d' where a: "appendChild c (tr_domNode this) (doc w) = Inr d'"
    and s': "s' = (this, w\<lparr>doc := d'\<rparr>)"
    by (auto simp add: s and_then_eq_Inr)
  have dok: "dom_ok (doc w)" using assms(1) by (simp add: s)
  note eq = appendChild_eq[OF dok a]
  have ne: "tr_domNode this \<noteq> c"
    using appendChild_Inr(3)[OF a] by (cases "next_node (doc w)") auto
  have "childNodes d' (tr_domNode this) = childNodes (doc w) (tr_domNode this)"
    using traces_root_not_child[OF assms(1)[unfolded s]] ne by (simp add: eq remove1_idem)
  then show "traces_ok s'"
    using assms(1) dom_ok_appendChild[OF dok a] appendChild_sel(1)[OF a] by (simp add: s s')
  show "fst s' = fst s" "console (snd s') = console (snd s)"
    "changeListeners (snd s') = changeListeners (snd s)" "observers (snd s') = observers (snd s)"
    by (simp_all add: s s')
  show "attributes (doc (snd s')) = attributes (doc (snd s))"
    using appendChild_sel(3)[OF a] by (simp add: s s')
  show "appendChild c (tr_domNode (fst s)) (doc (snd s)) = Inr (doc (snd s'))"
    using a by (simp add: s s')
qed

lemma remove_traces_ok:
  assumes "traces_ok s"
  shows "traces_ok (remove_traces s)" and "fst (remove_traces s) = fst s"
    and "console (snd (remove_traces s)) = console (snd s)"
    and "changeListeners (snd (remove_traces s)) = changeListeners (snd s)"
    and "observers (snd (remove_traces s)) = observers (snd s)"
    and "attributes (doc (snd (remove_traces s))) = attributes (doc (snd s))"
    and "doc (snd (remove_traces s)) = remove_node (tr_domNode (fst s)) (doc (snd s))"
proof -
  obtain this w where s: "s = (this, w)" by (cases s)
  have dok: "dom_ok (doc w)" using assms(1) by (simp add: s)
  note eq = remove_node_eq[OF dok, of "tr_domNode this"]
  have "childNodes (remove_node (tr_domNode this) (doc w)) (tr_domNode this) = childNodes (doc w) (tr_domNode this)"
    using traces_root_not_child[OF assms(1)[unfolded s]] by (simp add: eq remove1_idem)
  then show "traces_ok (remove_traces s)"
    using assms(1) dom_ok_remove_node[OF dok, of "tr_domNode this"] by (simp add: s)
qed (cases s; simp)+

subsection \<open>Sequences of events\<close>

lemma keeps_traces_refl: "keeps_traces s s"
  by (simp add: keeps_traces_def)

lemma keeps_traces_trans:
  assumes "keeps_traces s s1" and "keeps_traces s1 s2"
  shows "keeps_traces s s2"
proof -
  define n where "n = length (boxTraces (fst s))"
  define m where "m = length (boxTraces (fst s1))"
  have nm: "n \<le> m" using assms(1) by (simp add: keeps_traces_def n_def m_def)
  have "take n (boxTraces (fst s2)) = take n (take m (boxTraces (fst s2)))"
    using nm by (simp add: min_def)
  also have "take m (boxTraces (fst s2)) = boxTraces (fst s1)"
    using assms(2) by (simp add: keeps_traces_def m_def)
  also have "take n (boxTraces (fst s1)) = boxTraces (fst s)"
    using assms(1) by (simp add: keeps_traces_def n_def)
  finally show ?thesis
    using assms by (simp add: keeps_traces_def n_def)
qed

lemma refresh_traces_keeps:
  assumes "traces_ok s"
  shows "\<exists>s'. refresh_traces str ts s = Inr s' \<and> traces_ok s' \<and> keeps_traces s s'"
  using refresh_traces_ok[OF assms, of str ts] by (auto simp add: keeps_traces_def)

lemma call_listeners_refresh_traces:
  assumes "traces_ok s"
  shows "\<exists>s'. call_listeners (refresh_traces str ts) ls s = Inr s'
           \<and> traces_ok s' \<and> keeps_traces s s'"
  using assms
proof (induction ls arbitrary: s)
  case Nil
  then show ?case by (simp add: keeps_traces_refl)
next
  case (Cons l ls)
  from refresh_traces_keeps[OF Cons.prems, of str ts]
  obtain s1 where s1: "refresh_traces str ts s = Inr s1" "traces_ok s1" "keeps_traces s s1"
    by blast
  from Cons.IH[OF s1(2)]
  obtain s2 where s2: "call_listeners (refresh_traces str ts) ls s1 = Inr s2" "traces_ok s2"
    "keeps_traces s1 s2"
    by blast
  show ?case
    using s1 s2 keeps_traces_trans[OF s1(3) s2(3)] by (cases l) simp
qed

lemma step_traces_ok:
  assumes "traces_ok s" and "step_traces str e s = Inr s'"
  shows "traces_ok s' \<and> keeps_traces s s'"
proof (cases e)
  case (AppendTo c)
  then show ?thesis
    using assms appendTo_traces_ok[OF assms(1), of c s'] by (simp add: keeps_traces_def)
next
  case Remove
  then show ?thesis
    using assms remove_traces_ok[OF assms(1)] by (auto simp add: keeps_traces_def)
next
  case (Change ts scaling)
  then show ?thesis
    using assms call_listeners_refresh_traces[OF assms(1), of str ts "changeListeners (snd s)"] by auto
next
  case (Mutation ts scaling)
  then show ?thesis
    using assms call_listeners_refresh_traces[OF assms(1), of str ts "map fst (observers (snd s))"] by auto
qed

lemma run_traces_ok:
  assumes "traces_ok s" and "run_traces str es s = Inr s'"
  shows "traces_ok s' \<and> keeps_traces s s'"
  using assms
proof (induction es arbitrary: s)
  case Nil
  then show ?case by (simp add: keeps_traces_refl)
next
  case (Cons e es)
  then obtain s1 where s1: "step_traces str e s = Inr s1" "run_traces str es s1 = Inr s'"
    by (auto simp add: and_then_eq_Inr)
  from step_traces_ok[OF Cons.prems(1) s1(1)] have "traces_ok s1" "keeps_traces s s1" by simp_all
  then show ?case using Cons.IH[OF _ s1(2)] keeps_traces_trans by blast
qed

lemma run_traces_without_notification:
  assumes "traces_ok s" and "run_traces str es s = Inr s'" and "list_all (\<lambda>e. \<not> is_notification e) es"
  shows "fst s' = fst s \<and> attributes (doc (snd s')) = attributes (doc (snd s))
           \<and> console (snd s') = console (snd s)"
  using assms
proof (induction es arbitrary: s)
  case Nil
  then show ?case by simp
next
  case (Cons e es)
  then obtain s1 where s1: "step_traces str e s = Inr s1" "run_traces str es s1 = Inr s'"
    by (auto simp add: and_then_eq_Inr)
  have ok1: "traces_ok s1" using step_traces_ok[OF Cons.prems(1) s1(1)] by simp
  have "fst s1 = fst s \<and> attributes (doc (snd s1)) = attributes (doc (snd s))
           \<and> console (snd s1) = console (snd s)"
  proof (cases e)
    case (AppendTo c)
    then show ?thesis using s1(1) appendTo_traces_ok[OF Cons.prems(1), of c s1] by simp
  next
    case Remove
    then show ?thesis using s1(1) remove_traces_ok[OF Cons.prems(1)] by auto
  next
    case (Change ts scaling)
    then show ?thesis using Cons.prems(3) by (simp add: is_notification_def)
  next
    case (Mutation ts scaling)
    then show ?thesis using Cons.prems(3) by (simp add: is_notification_def)
  qed
  then show ?case using Cons.IH[OF ok1 s1(2)] Cons.prems(3) by simp
qed

section \<open>The claims about a refresh\<close>

subsection \<open>The example controllers\<close>

lemma example_world_ok: "dom_ok (doc example_world)"
  by (simp add: example_world_def dom_ok_example)

lemma example_controller_ok:
  "highlightings_ok example_controller" "boxHighlightings (fst example_controller) = []"
  "console (snd example_controller) = []"
  using LiveSVGElementHighlightings_new_ok(1,2,6)[OF example_world_ok, of 0]
  by (simp_all add: example_controller_def example_world_def)

lemma example_trace_controller_ok:
  "traces_ok example_trace_controller" "boxTraces (fst example_trace_controller) = []"
  "console (snd example_trace_controller) = []"
  using LiveSVGElementTraces_new_ok(1,2,6)[OF example_world_ok, of 0]
  by (simp_all add: example_trace_controller_def example_world_def)

lemma example_refreshed_ok:
  "highlightings_ok example_refreshed" "length (boxHighlightings (fst example_refreshed)) = 3"
  "console (snd example_refreshed) = []"
proof -
  from refresh_ok[OF example_controller_ok(1), of decimal example_targets 1]
  obtain s' where "refresh decimal example_targets 1 example_controller = Inr s'"
    "highlightings_ok s'"
    "length (boxHighlightings (fst s')) = max (length (boxHighlightings (fst example_controller))) (length example_targets)"
    "console (snd s') = console (snd example_controller) @ thrown example_targets"
    by blast
  then show "highlightings_ok example_refreshed" "length (boxHighlightings (fst example_refreshed)) = 3"
    "console (snd example_refreshed) = []"
    by (simp_all add: example_refreshed_def example_controller_ok example_targets_def thrown_def)
qed

lemma example_traces_refreshed_ok:
  "traces_ok example_traces_refreshed" "length (boxTraces (fst example_traces_refreshed)) = 3"
  "console (snd example_traces_refreshed) = []"
proof -
  from refresh_traces_ok[OF example_trace_controller_ok(1), of decimal example_targets]
  obtain s' where "refresh_traces decimal example_targets example_trace_controller = Inr s'"
    "traces_ok s'"
    "length (boxTraces (fst s')) = max (length (boxTraces (fst example_trace_controller))) (length example_targets)"
    "console (snd s') = console (snd example_trace_controller) @ thrown example_targets"
    by blast
  then show "traces_ok example_traces_refreshed" "length (boxTraces (fst example_traces_refreshed)) = 3"
    "console (snd example_traces_refreshed) = []"
    by (simp_all add: example_traces_refreshed_def example_trace_controller_ok example_targets_def thrown_def)
qed

subsection \<open>One failing target\<close>

lemma thrown_map_Inr [simp]: "thrown (map Inr boxes) = []"
  by (induction boxes) (simp_all add: thrown_def)





subsection \<open>The pool of markers\<close>

lemma highlightings_children:
  "highlightings_ok s \<Longrightarrow>
     childNodes (doc (snd s)) (domNode (fst s)) = map bh_domNode (boxHighlightings (fst s))"
  by (cases s) simp

lemma traces_children:
  "traces_ok s \<Longrightarrow> childNodes (doc (snd s)) (tr_domNode (fst s)) = map bt_domNode (boxTraces (fst s))"
  by (cases s) simp

text \<open>
  C2: a refresh returns with a pool whose length is the maximum of its former length and the
  number of targets; the markers that the pool had are still its first markers, the same
  objects in the same order; and the children of the controller's group node are the group
  nodes of the markers of the pool, so that a target set grown from \<open>N\<close> to \<open>N + K\<close>
  members leaves exactly \<open>N + K\<close> markers attached. Over every sequence of events the pool
  keeps its markers in this way, hence never gets shorter. This holds for both controllers.
\<close>

theorem pool_only_grows:
  assumes "highlightings_ok s" and "traces_ok st"
  shows "(\<exists>s'. refresh str ts scaling s = Inr s'
           \<and> length (boxHighlightings (fst s')) = max (length (boxHighlightings (fst s))) (length ts)
           \<and> keeps_highlightings s s'
           \<and> childNodes (doc (snd s')) (domNode (fst s')) = map bh_domNode (boxHighlightings (fst s')))
       \<and> (\<forall>es s'. run str es s = Inr s' \<longrightarrow> keeps_highlightings s s')
       \<and> (\<exists>st'. refresh_traces str ts st = Inr st'
           \<and> length (boxTraces (fst st')) = max (length (boxTraces (fst st))) (length ts)
           \<and> keeps_traces st st'
           \<and> childNodes (doc (snd st')) (tr_domNode (fst st')) = map bt_domNode (boxTraces (fst st')))
       \<and> (\<forall>es st'. run_traces str es st = Inr st' \<longrightarrow> keeps_traces st st')"
proof (intro conjI allI impI)
  from refresh_ok[OF assms(1), of str ts scaling]
  obtain s' where s': "refresh str ts scaling s = Inr s'" "highlightings_ok s'"
    "length (boxHighlightings (fst s')) = max (length (boxHighlightings (fst s))) (length ts)"
    "map BoxHighlighting_nodes (take (length (boxHighlightings (fst s))) (boxHighlightings (fst s')))
          = map BoxHighlighting_nodes (boxHighlightings (fst s))"
    "domNode (fst s') = domNode (fst s)" "changeListeners (snd s') = changeListeners (snd s)"
    "observers (snd s') = observers (snd s)"
    by blast
  have "keeps_highlightings s s'" using s' by (simp add: keeps_highlightings_def)
  then show "\<exists>s'. refresh str ts scaling s = Inr s'
           \<and> length (boxHighlightings (fst s')) = max (length (boxHighlightings (fst s))) (length ts)
           \<and> keeps_highlightings s s'
           \<and> childNodes (doc (snd s')) (domNode (fst s')) = map bh_domNode (boxHighlightings (fst s'))"
    using s'(1,3) highlightings_children[OF s'(2)] by blast
next
  fix es s' assume "run str es s = Inr s'"
  then show "keeps_highlightings s s'" using run_ok[OF assms(1)] by blast
next
  from refresh_traces_ok[OF assms(2), of str ts]
  obtain st' where st': "refresh_traces str ts st = Inr st'" "traces_ok st'"
    "length (boxTraces (fst st')) = max (length (boxTraces (fst st))) (length ts)"
    "take (length (boxTraces (fst st))) (boxTraces (fst st')) = boxTraces (fst st)"
    "tr_domNode (fst st') = tr_domNode (fst st)" "changeListeners (snd st') = changeListeners (snd st)"
    "observers (snd st') = observers (snd st)"
    by blast
  have "keeps_traces st st'" using st' by (simp add: keeps_traces_def)
  then show "\<exists>st'. refresh_traces str ts st = Inr st'
           \<and> length (boxTraces (fst st')) = max (length (boxTraces (fst st))) (length ts)
           \<and> keeps_traces st st'
           \<and> childNodes (doc (snd st')) (tr_domNode (fst st')) = map bt_domNode (boxTraces (fst st'))"
    using st'(1,3) traces_children[OF st'(2)] by blast
next
  fix es st' assume "run_traces str es st = Inr st'"
  then show "keeps_traces st st'" using run_traces_ok[OF assms(2)] by blast
qed

theorem pool_only_grows_witness:
  "highlightings_ok example_refreshed \<and> traces_ok example_traces_refreshed
   \<and> (\<exists>s'. refresh decimal (example_targets @ [Inr example_box, Inr small_box]) 2 example_refreshed = Inr s'
         \<and> length (boxHighlightings (fst s')) = 5
         \<and> length (childNodes (doc (snd s')) (domNode (fst s'))) = 5
         \<and> map BoxHighlighting_nodes (take 3 (boxHighlightings (fst s')))
              = map BoxHighlighting_nodes (boxHighlightings (fst example_refreshed)))
   \<and> (\<exists>st'. refresh_traces decimal (example_targets @ [Inr example_box, Inr small_box]) example_traces_refreshed = Inr st'
         \<and> length (boxTraces (fst st')) = 5
         \<and> length (childNodes (doc (snd st')) (tr_domNode (fst st'))) = 5
         \<and> take 3 (boxTraces (fst st')) = boxTraces (fst example_traces_refreshed))"
proof -
  note w = pool_only_grows[OF example_refreshed_ok(1) example_traces_refreshed_ok(1),
      of decimal "example_targets @ [Inr example_box, Inr small_box]" 2]
  from w obtain s' where s': "refresh decimal (example_targets @ [Inr example_box, Inr small_box]) 2 example_refreshed = Inr s'"
    "length (boxHighlightings (fst s'))
       = max (length (boxHighlightings (fst example_refreshed))) (length (example_targets @ [Inr example_box, Inr small_box]))"
    "keeps_highlightings example_refreshed s'"
    "childNodes (doc (snd s')) (domNode (fst s')) = map bh_domNode (boxHighlightings (fst s'))"
    by blast
  from w obtain st' where st': "refresh_traces decimal (example_targets @ [Inr example_box, Inr small_box]) example_traces_refreshed = Inr st'"
    "length (boxTraces (fst st'))
       = max (length (boxTraces (fst example_traces_refreshed))) (length (example_targets @ [Inr example_box, Inr small_box]))"
    "keeps_traces example_traces_refreshed st'"
    "childNodes (doc (snd st')) (tr_domNode (fst st')) = map bt_domNode (boxTraces (fst st'))"
    by blast
  have a: "length (boxHighlightings (fst s')) = 5" "length (childNodes (doc (snd s')) (domNode (fst s'))) = 5"
    "map BoxHighlighting_nodes (take 3 (boxHighlightings (fst s')))
              = map BoxHighlighting_nodes (boxHighlightings (fst example_refreshed))"
    using s'(2,3,4) by (simp_all add: example_refreshed_ok example_targets_def keeps_highlightings_def)
  have b: "length (boxTraces (fst st')) = 5" "length (childNodes (doc (snd st')) (tr_domNode (fst st'))) = 5"
    "take 3 (boxTraces (fst st')) = boxTraces (fst example_traces_refreshed)"
    using st'(2,3,4) by (simp_all add: example_traces_refreshed_ok example_targets_def keeps_traces_def)
  show ?thesis
    using example_refreshed_ok(1) example_traces_refreshed_ok(1) s'(1) st'(1) a b by blast
qed

subsection \<open>A smaller target set\<close>

lemma highlightings_attached:
  assumes "highlightings_ok s" "k < length (boxHighlightings (fst s))"
  shows "parentNode (doc (snd s)) (bh_domNode (boxHighlightings (fst s) ! k)) = Some (domNode (fst s))"
proof -
  obtain this w where s: "s = (this, w)" by (cases s)
  have "bh_domNode (boxHighlightings this ! k) \<in> set (childNodes (doc w) (domNode this))"
    using assms by (simp add: s)
  moreover have "dom_ok (doc w)" using assms by (simp add: s)
  ultimately show ?thesis by (simp add: s dom_ok_def)
qed

lemma traces_attached:
  assumes "traces_ok s" "k < length (boxTraces (fst s))"
  shows "parentNode (doc (snd s)) (bt_domNode (boxTraces (fst s) ! k)) = Some (tr_domNode (fst s))"
proof -
  obtain this w where s: "s = (this, w)" by (cases s)
  have "bt_domNode (boxTraces this ! k) \<in> set (childNodes (doc w) (tr_domNode this))"
    using assms by (simp add: s)
  moreover have "dom_ok (doc w)" using assms by (simp add: s)
  ultimately show ?thesis by (simp add: s dom_ok_def)
qed

text \<open>
  C3: a refresh with \<open>M\<close> targets that all give their bounding boxes, for a pool of
  \<open>N > M\<close> markers: the pool keeps its \<open>N\<close> markers, the first \<open>M\<close> markers end with
  opacity \<open>1\<close>, and the other \<open>N - M\<close> markers end with opacity \<open>0\<close> and are still
  children of the controller's group node. This holds for both controllers.
\<close>

theorem shrunk_target_set:
  assumes "highlightings_ok s" and "traces_ok st"
    and "length boxes < length (boxHighlightings (fst s))"
    and "length boxes < length (boxTraces (fst st))"
  shows "(\<exists>s'. refresh str (map Inr boxes) scaling s = Inr s'
           \<and> length (boxHighlightings (fst s')) = length (boxHighlightings (fst s))
           \<and> (\<forall>k < length boxes.
                 opacity (bh_domNode (boxHighlightings (fst s') ! k)) (doc (snd s')) = Some (str 1))
           \<and> (\<forall>k. length boxes \<le> k \<and> k < length (boxHighlightings (fst s)) \<longrightarrow>
                 opacity (bh_domNode (boxHighlightings (fst s') ! k)) (doc (snd s')) = Some (str 0)
                 \<and> parentNode (doc (snd s')) (bh_domNode (boxHighlightings (fst s') ! k))
                     = Some (domNode (fst s'))))
       \<and> (\<exists>st'. refresh_traces str (map Inr boxes) st = Inr st'
           \<and> length (boxTraces (fst st')) = length (boxTraces (fst st))
           \<and> (\<forall>k < length boxes.
                 opacity (bt_domNode (boxTraces (fst st') ! k)) (doc (snd st')) = Some (str 1))
           \<and> (\<forall>k. length boxes \<le> k \<and> k < length (boxTraces (fst st)) \<longrightarrow>
                 opacity (bt_domNode (boxTraces (fst st') ! k)) (doc (snd st')) = Some (str 0)
                 \<and> parentNode (doc (snd st')) (bt_domNode (boxTraces (fst st') ! k))
                     = Some (tr_domNode (fst st'))))"
proof (rule conjI)
  from refresh_ok[OF assms(1), of str "map Inr boxes" scaling]
  obtain s' where r: "refresh str (map Inr boxes) scaling s = Inr s'" and ok': "highlightings_ok s'"
    and len: "length (boxHighlightings (fst s')) = max (length (boxHighlightings (fst s))) (length (map Inr boxes :: target list))"
    and sl: "\<forall>k < length (map Inr boxes :: target list). case (map Inr boxes :: target list) ! k of
           Inr box \<Rightarrow>
             highlighted str (0.75 / scaling) box (boxHighlightings (fst s') ! k) (doc (snd s'))
             \<and> opacity (bh_domNode (boxHighlightings (fst s') ! k)) (doc (snd s')) = Some (str 1)
         | Inl err \<Rightarrow>
             k < length (boxHighlightings (fst s)) \<longrightarrow> highlighting_at k s' = highlighting_at k s"
    and ex: "\<forall>k. length (map Inr boxes :: target list) \<le> k \<and> k < length (boxHighlightings (fst s')) \<longrightarrow>
           opacity (bh_domNode (boxHighlightings (fst s') ! k)) (doc (snd s')) = Some (str 0)
           \<and> boxHighlightings (fst s') ! k = boxHighlightings (fst s) ! k"
    by blast
  have len': "length (boxHighlightings (fst s')) = length (boxHighlightings (fst s))"
    using len assms(3) by simp
  have vis: "\<forall>k < length boxes.
       opacity (bh_domNode (boxHighlightings (fst s') ! k)) (doc (snd s')) = Some (str 1)"
    using sl by simp
  have hid: "\<forall>k. length boxes \<le> k \<and> k < length (boxHighlightings (fst s)) \<longrightarrow>
                 opacity (bh_domNode (boxHighlightings (fst s') ! k)) (doc (snd s')) = Some (str 0)
                 \<and> parentNode (doc (snd s')) (bh_domNode (boxHighlightings (fst s') ! k))
                     = Some (domNode (fst s'))"
  proof (intro allI impI)
    fix k assume k: "length boxes \<le> k \<and> k < length (boxHighlightings (fst s))"
    then have "k < length (boxHighlightings (fst s'))" by (simp add: len')
    moreover from this k
    have "opacity (bh_domNode (boxHighlightings (fst s') ! k)) (doc (snd s')) = Some (str 0)"
      using ex[unfolded length_map, rule_format, of k] by blast
    ultimately show "opacity (bh_domNode (boxHighlightings (fst s') ! k)) (doc (snd s')) = Some (str 0)
        \<and> parentNode (doc (snd s')) (bh_domNode (boxHighlightings (fst s') ! k))
            = Some (domNode (fst s'))"
      using highlightings_attached[OF ok', of k] by blast
  qed
  show "\<exists>s'. refresh str (map Inr boxes) scaling s = Inr s'
           \<and> length (boxHighlightings (fst s')) = length (boxHighlightings (fst s))
           \<and> (\<forall>k < length boxes.
                 opacity (bh_domNode (boxHighlightings (fst s') ! k)) (doc (snd s')) = Some (str 1))
           \<and> (\<forall>k. length boxes \<le> k \<and> k < length (boxHighlightings (fst s)) \<longrightarrow>
                 opacity (bh_domNode (boxHighlightings (fst s') ! k)) (doc (snd s')) = Some (str 0)
                 \<and> parentNode (doc (snd s')) (bh_domNode (boxHighlightings (fst s') ! k))
                     = Some (domNode (fst s')))"
    using r len' vis hid by blast
next
  from refresh_traces_ok[OF assms(2), of str "map Inr boxes"]
  obtain st' where r: "refresh_traces str (map Inr boxes) st = Inr st'" and ok': "traces_ok st'"
    and len: "length (boxTraces (fst st')) = max (length (boxTraces (fst st))) (length (map Inr boxes :: target list))"
    and sl: "\<forall>k < length (map Inr boxes :: target list). case (map Inr boxes :: target list) ! k of
           Inr box \<Rightarrow>
             traced str box (boxTraces (fst st') ! k) (doc (snd st'))
             \<and> opacity (bt_domNode (boxTraces (fst st') ! k)) (doc (snd st')) = Some (str 1)
         | Inl err \<Rightarrow>
             k < length (boxTraces (fst st)) \<longrightarrow> trace_at k st' = trace_at k st"
    and ex: "\<forall>k. length (map Inr boxes :: target list) \<le> k \<and> k < length (boxTraces (fst st')) \<longrightarrow>
           opacity (bt_domNode (boxTraces (fst st') ! k)) (doc (snd st')) = Some (str 0)"
    by blast
  have len': "length (boxTraces (fst st')) = length (boxTraces (fst st))"
    using len assms(4) by simp
  have vis: "\<forall>k < length boxes.
       opacity (bt_domNode (boxTraces (fst st') ! k)) (doc (snd st')) = Some (str 1)"
    using sl by simp
  have hid: "\<forall>k. length boxes \<le> k \<and> k < length (boxTraces (fst st)) \<longrightarrow>
                 opacity (bt_domNode (boxTraces (fst st') ! k)) (doc (snd st')) = Some (str 0)
                 \<and> parentNode (doc (snd st')) (bt_domNode (boxTraces (fst st') ! k))
                     = Some (tr_domNode (fst st'))"
  proof (intro allI impI)
    fix k assume k: "length boxes \<le> k \<and> k < length (boxTraces (fst st))"
    then have "k < length (boxTraces (fst st'))" by (simp add: len')
    moreover from this k
    have "opacity (bt_domNode (boxTraces (fst st') ! k)) (doc (snd st')) = Some (str 0)"
      using ex[unfolded length_map, rule_format, of k] by blast
    ultimately show "opacity (bt_domNode (boxTraces (fst st') ! k)) (doc (snd st')) = Some (str 0)
        \<and> parentNode (doc (snd st')) (bt_domNode (boxTraces (fst st') ! k))
            = Some (tr_domNode (fst st'))"
      using traces_attached[OF ok', of k] by blast
  qed
  show "\<exists>st'. refresh_traces str (map Inr boxes) st = Inr st'
           \<and> length (boxTraces (fst st')) = length (boxTraces (fst st))
           \<and> (\<forall>k < length boxes.
                 opacity (bt_domNode (boxTraces (fst st') ! k)) (doc (snd st')) = Some (str 1))
           \<and> (\<forall>k. length boxes \<le> k \<and> k < length (boxTraces (fst st)) \<longrightarrow>
                 opacity (bt_domNode (boxTraces (fst st') ! k)) (doc (snd st')) = Some (str 0)
                 \<and> parentNode (doc (snd st')) (bt_domNode (boxTraces (fst st') ! k))
                     = Some (tr_domNode (fst st')))"
    using r len' vis hid by blast
qed

theorem shrunk_target_set_witness:
  "highlightings_ok example_refreshed \<and> traces_ok example_traces_refreshed
   \<and> length [small_box] < length (boxHighlightings (fst example_refreshed))
   \<and> length [small_box] < length (boxTraces (fst example_traces_refreshed))
   \<and> (\<exists>s'. refresh decimal [Inr small_box] 1 example_refreshed = Inr s'
         \<and> length (boxHighlightings (fst s')) = 3
         \<and> opacity (bh_domNode (boxHighlightings (fst s') ! 0)) (doc (snd s')) = Some ''1''
         \<and> opacity (bh_domNode (boxHighlightings (fst s') ! 1)) (doc (snd s')) = Some ''0''
         \<and> opacity (bh_domNode (boxHighlightings (fst s') ! 2)) (doc (snd s')) = Some ''0''
         \<and> parentNode (doc (snd s')) (bh_domNode (boxHighlightings (fst s') ! 2)) = Some (domNode (fst s')))
   \<and> (\<exists>st'. refresh_traces decimal [Inr small_box] example_traces_refreshed = Inr st'
         \<and> length (boxTraces (fst st')) = 3
         \<and> opacity (bt_domNode (boxTraces (fst st') ! 0)) (doc (snd st')) = Some ''1''
         \<and> opacity (bt_domNode (boxTraces (fst st') ! 1)) (doc (snd st')) = Some ''0''
         \<and> opacity (bt_domNode (boxTraces (fst st') ! 2)) (doc (snd st')) = Some ''0''
         \<and> parentNode (doc (snd st')) (bt_domNode (boxTraces (fst st') ! 2)) = Some (tr_domNode (fst st')))"
proof -
  have l: "length [small_box] < length (boxHighlightings (fst example_refreshed))"
    "length [small_box] < length (boxTraces (fst example_traces_refreshed))"
    by (simp_all add: example_refreshed_ok example_traces_refreshed_ok)
  note w = shrunk_target_set[OF example_refreshed_ok(1) example_traces_refreshed_ok(1) l, of decimal 1]
  from w obtain s' where s': "refresh decimal (map Inr [small_box]) 1 example_refreshed = Inr s'"
    "length (boxHighlightings (fst s')) = length (boxHighlightings (fst example_refreshed))"
    "\<forall>k < length [small_box].
        opacity (bh_domNode (boxHighlightings (fst s') ! k)) (doc (snd s')) = Some (decimal 1)"
    "\<forall>k. length [small_box] \<le> k \<and> k < length (boxHighlightings (fst example_refreshed)) \<longrightarrow>
        opacity (bh_domNode (boxHighlightings (fst s') ! k)) (doc (snd s')) = Some (decimal 0)
        \<and> parentNode (doc (snd s')) (bh_domNode (boxHighlightings (fst s') ! k)) = Some (domNode (fst s'))"
    by blast
  from w obtain st' where st': "refresh_traces decimal (map Inr [small_box]) example_traces_refreshed = Inr st'"
    "length (boxTraces (fst st')) = length (boxTraces (fst example_traces_refreshed))"
    "\<forall>k < length [small_box].
        opacity (bt_domNode (boxTraces (fst st') ! k)) (doc (snd st')) = Some (decimal 1)"
    "\<forall>k. length [small_box] \<le> k \<and> k < length (boxTraces (fst example_traces_refreshed)) \<longrightarrow>
        opacity (bt_domNode (boxTraces (fst st') ! k)) (doc (snd st')) = Some (decimal 0)
        \<and> parentNode (doc (snd st')) (bt_domNode (boxTraces (fst st') ! k)) = Some (tr_domNode (fst st'))"
    by blast
  have a: "refresh decimal [Inr small_box] 1 example_refreshed = Inr s'"
    "length (boxHighlightings (fst s')) = 3"
    "opacity (bh_domNode (boxHighlightings (fst s') ! 0)) (doc (snd s')) = Some ''1''"
    "opacity (bh_domNode (boxHighlightings (fst s') ! 1)) (doc (snd s')) = Some ''0''"
    "opacity (bh_domNode (boxHighlightings (fst s') ! 2)) (doc (snd s')) = Some ''0''"
    "parentNode (doc (snd s')) (bh_domNode (boxHighlightings (fst s') ! 2)) = Some (domNode (fst s'))"
    using s'(1,2) s'(3)[rule_format, of 0] s'(4)[rule_format, of 1] s'(4)[rule_format, of 2]
    by (simp_all add: example_refreshed_ok decimal_simps)
  have b: "refresh_traces decimal [Inr small_box] example_traces_refreshed = Inr st'"
    "length (boxTraces (fst st')) = 3"
    "opacity (bt_domNode (boxTraces (fst st') ! 0)) (doc (snd st')) = Some ''1''"
    "opacity (bt_domNode (boxTraces (fst st') ! 1)) (doc (snd st')) = Some ''0''"
    "opacity (bt_domNode (boxTraces (fst st') ! 2)) (doc (snd st')) = Some ''0''"
    "parentNode (doc (snd st')) (bt_domNode (boxTraces (fst st') ! 2)) = Some (tr_domNode (fst st'))"
    using st'(1,2) st'(3)[rule_format, of 0] st'(4)[rule_format, of 1] st'(4)[rule_format, of 2]
    by (simp_all add: example_traces_refreshed_ok decimal_simps)
  show ?thesis
    using example_refreshed_ok(1) example_traces_refreshed_ok(1) l a b by blast
qed

subsection \<open>The line thickness of a refresh\<close>

lemma example_refreshed_eq:
  "refresh decimal example_targets 1 example_controller = Inr example_refreshed"
proof -
  from refresh_ok[OF example_controller_ok(1), of decimal example_targets 1]
  obtain s' where "refresh decimal example_targets 1 example_controller = Inr s'" by blast
  then show ?thesis by (simp add: example_refreshed_def)
qed

lemma example_traces_refreshed_eq:
  "refresh_traces decimal example_targets example_trace_controller = Inr example_traces_refreshed"
proof -
  from refresh_traces_ok[OF example_trace_controller_ok(1), of decimal example_targets]
  obtain s' where "refresh_traces decimal example_targets example_trace_controller = Inr s'" by blast
  then show ?thesis by (simp add: example_traces_refreshed_def)
qed



subsection \<open>Construction\<close>

lemma appendTo_returns:
  assumes "highlightings_ok s" and "c < next_node (doc (snd s))"
    and "parentNode (doc (snd s)) c = None" and "c \<noteq> domNode (fst s)"
  shows "\<exists>s'. appendTo c s = Inr s'"
proof -
  obtain this w where s: "s = (this, w)" by (cases s)
  have "\<not> inclusive_ancestor k (parentNode (doc w)) (domNode this) c" for k
    using assms(3,4) by (cases k) (simp_all add: s)
  then show ?thesis using assms(1,2) by (simp add: s appendChild_def Let_def)
qed

lemma appendTo_traces_returns:
  assumes "traces_ok s" and "c < next_node (doc (snd s))"
    and "parentNode (doc (snd s)) c = None" and "c \<noteq> tr_domNode (fst s)"
  shows "\<exists>s'. appendTo_traces c s = Inr s'"
proof -
  obtain this w where s: "s = (this, w)" by (cases s)
  have "\<not> inclusive_ancestor k (parentNode (doc w)) (tr_domNode this) c" for k
    using assms(3,4) by (cases k) (simp_all add: s)
  then show ?thesis using assms(1,2) by (simp add: s appendChild_def Let_def)
qed

lemma example_controller_nodes:
  "domNode (fst example_controller) = 2" "next_node (doc (snd example_controller)) = 3"
  "parentNode (doc (snd example_controller)) = Map.empty"
  "childNodes (doc (snd example_controller)) = (\<lambda>n. [])"
  by (simp_all add: example_controller_def LiveSVGElementHighlightings_new_def createElementNS_def
      example_world_def example_DOM_def)

lemma example_trace_controller_nodes:
  "tr_domNode (fst example_trace_controller) = 2" "next_node (doc (snd example_trace_controller)) = 3"
  "parentNode (doc (snd example_trace_controller)) = Map.empty"
  "childNodes (doc (snd example_trace_controller)) = (\<lambda>n. [])"
  by (simp_all add: example_trace_controller_def LiveSVGElementTraces_new_def createElementNS_def
      example_world_def example_DOM_def)

text \<open>
  C8: the constructor adds one listener that calls \<open>refresh\<close> to the listeners for the change
  events of the target set, and one observer that calls \<open>refresh\<close>, observing the parent
  document with \<open>attributes\<close>, \<open>childList\<close>, \<open>characterData\<close> and \<open>subtree\<close>; it creates no
  marker and writes no attribute. After every sequence of events without a notification
  (calls of \<open>appendTo\<close> and \<open>remove\<close>) the pool is still empty, the group node of the
  controller has no child, no attribute of the document has been written, nothing has been
  logged, and the two subscriptions are still there. This holds for both controllers.
\<close>

theorem construction_does_not_refresh:
  assumes "dom_ok (doc w)" and "list_all (\<lambda>e. \<not> is_notification e) es"
    and "run str es (LiveSVGElementHighlightings_new p w) = Inr s'"
    and "run_traces str es (LiveSVGElementTraces_new p w) = Inr st'"
  shows "changeListeners (snd (LiveSVGElementHighlightings_new p w)) = changeListeners w @ [CallRefresh]
       \<and> observers (snd (LiveSVGElementHighlightings_new p w)) = observers w @
           [(CallRefresh, p, \<lparr>observe_attributes = True, observe_childList = True,
                              observe_characterData = True, observe_subtree = True\<rparr>)]
       \<and> boxHighlightings (fst (LiveSVGElementHighlightings_new p w)) = []
       \<and> attributes (doc (snd (LiveSVGElementHighlightings_new p w))) = attributes (doc w)
       \<and> boxHighlightings (fst s') = []
       \<and> childNodes (doc (snd s')) (domNode (fst s')) = []
       \<and> attributes (doc (snd s')) = attributes (doc w)
       \<and> console (snd s') = console w
       \<and> changeListeners (snd s') = changeListeners w @ [CallRefresh]
       \<and> observers (snd s') = observers (snd (LiveSVGElementHighlightings_new p w))
       \<and> changeListeners (snd (LiveSVGElementTraces_new p w)) = changeListeners w @ [CallRefresh]
       \<and> observers (snd (LiveSVGElementTraces_new p w)) = observers w @
           [(CallRefresh, p, \<lparr>observe_attributes = True, observe_childList = True,
                              observe_characterData = True, observe_subtree = True\<rparr>)]
       \<and> boxTraces (fst (LiveSVGElementTraces_new p w)) = []
       \<and> attributes (doc (snd (LiveSVGElementTraces_new p w))) = attributes (doc w)
       \<and> boxTraces (fst st') = []
       \<and> childNodes (doc (snd st')) (tr_domNode (fst st')) = []
       \<and> attributes (doc (snd st')) = attributes (doc w)
       \<and> console (snd st') = console w
       \<and> changeListeners (snd st') = changeListeners w @ [CallRefresh]
       \<and> observers (snd st') = observers (snd (LiveSVGElementTraces_new p w))"
proof -
  note n = LiveSVGElementHighlightings_new_ok[OF assms(1), of p]
  note t = LiveSVGElementTraces_new_ok[OF assms(1), of p]
  from run_ok[OF n(1) assms(3)]
  have ok: "highlightings_ok s'" and k: "keeps_highlightings (LiveSVGElementHighlightings_new p w) s'"
    by simp_all
  from run_without_notification[OF n(1) assms(3,2)]
  have f: "fst s' = fst (LiveSVGElementHighlightings_new p w)"
    "attributes (doc (snd s')) = attributes (doc (snd (LiveSVGElementHighlightings_new p w)))"
    "console (snd s') = console (snd (LiveSVGElementHighlightings_new p w))"
    by simp_all
  have pool: "boxHighlightings (fst s') = []" by (simp add: f(1) n(2))
  have kids: "childNodes (doc (snd s')) (domNode (fst s')) = []"
    using highlightings_children[OF ok] by (simp add: pool)
  have subs: "changeListeners (snd s') = changeListeners w @ [CallRefresh]"
    "observers (snd s') = observers (snd (LiveSVGElementHighlightings_new p w))"
    using k by (simp_all add: keeps_highlightings_def n(7))
  from run_traces_ok[OF t(1) assms(4)]
  have tok: "traces_ok st'" and tk: "keeps_traces (LiveSVGElementTraces_new p w) st'"
    by simp_all
  from run_traces_without_notification[OF t(1) assms(4,2)]
  have tf: "fst st' = fst (LiveSVGElementTraces_new p w)"
    "attributes (doc (snd st')) = attributes (doc (snd (LiveSVGElementTraces_new p w)))"
    "console (snd st') = console (snd (LiveSVGElementTraces_new p w))"
    by simp_all
  have tpool: "boxTraces (fst st') = []" by (simp add: tf(1) t(2))
  have tkids: "childNodes (doc (snd st')) (tr_domNode (fst st')) = []"
    using traces_children[OF tok] by (simp add: tpool)
  have tsubs: "changeListeners (snd st') = changeListeners w @ [CallRefresh]"
    "observers (snd st') = observers (snd (LiveSVGElementTraces_new p w))"
    using tk by (simp_all add: keeps_traces_def t(7))
  show ?thesis
    by (intro conjI n(7) n(8) n(2) n(5) pool kids f(2)[unfolded n(5)] f(3)[unfolded n(6)] subs
        t(7) t(8) t(2) t(5) tpool tkids tf(2)[unfolded t(5)] tf(3)[unfolded t(6)] tsubs)
qed

theorem construction_does_not_refresh_witness:
  "dom_ok (doc example_world)
   \<and> list_all (\<lambda>e. \<not> is_notification e) [AppendTo 1, Remove, AppendTo 0]
   \<and> (\<exists>s'. run decimal [AppendTo 1, Remove, AppendTo 0] (LiveSVGElementHighlightings_new 0 example_world) = Inr s'
         \<and> boxHighlightings (fst s') = []
         \<and> childNodes (doc (snd s')) (domNode (fst s')) = []
         \<and> attributes (doc (snd s')) = attributes (doc example_world)
         \<and> changeListeners (snd s') = [CallRefresh])
   \<and> (\<exists>st'. run_traces decimal [AppendTo 1, Remove, AppendTo 0] (LiveSVGElementTraces_new 0 example_world) = Inr st'
         \<and> boxTraces (fst st') = []
         \<and> childNodes (doc (snd st')) (tr_domNode (fst st')) = []
         \<and> attributes (doc (snd st')) = attributes (doc example_world)
         \<and> changeListeners (snd st') = [CallRefresh])"
proof -
  let ?es = "[AppendTo 1, Remove, AppendTo 0]"
  have es: "list_all (\<lambda>e. \<not> is_notification e) ?es" by (simp add: is_notification_def)
  have three: "(3 :: nat) = Suc (Suc (Suc 0))" by simp
  have "\<exists>s'. run decimal ?es example_controller = Inr s'"
    by (simp add: example_controller_def LiveSVGElementHighlightings_new_def createElementNS_def
      example_world_def example_DOM_def appendChild_def remove_node_def Let_def three)
  then obtain s' where r: "run decimal ?es (LiveSVGElementHighlightings_new 0 example_world) = Inr s'"
    unfolding example_controller_def by blast
  have "\<exists>st'. run_traces decimal ?es example_trace_controller = Inr st'"
    by (simp add: example_trace_controller_def LiveSVGElementTraces_new_def createElementNS_def
      example_world_def example_DOM_def appendChild_def remove_node_def Let_def three)
  then obtain st' where rt: "run_traces decimal ?es (LiveSVGElementTraces_new 0 example_world) = Inr st'"
    unfolding example_trace_controller_def by blast
  note w = construction_does_not_refresh[OF example_world_ok es r rt]
  have l: "changeListeners example_world = []" by (simp add: example_world_def)
  have a: "boxHighlightings (fst s') = []" "childNodes (doc (snd s')) (domNode (fst s')) = []"
    "attributes (doc (snd s')) = attributes (doc example_world)"
    "changeListeners (snd s') = [CallRefresh]"
    using w by (simp_all add: l)
  have b: "boxTraces (fst st') = []" "childNodes (doc (snd st')) (tr_domNode (fst st')) = []"
    "attributes (doc (snd st')) = attributes (doc example_world)"
    "changeListeners (snd st') = [CallRefresh]"
    using w by (simp_all add: l)
  show ?thesis using example_world_ok es r rt a b by blast
qed

subsection \<open>A refresh leaves the old nodes where they are\<close>

lemma create_boxHighlightings_parents:
  assumes "highlightings_ok s" and "forEach_throwing_from i (create_boxHighlighting str) xs s = Inr s'"
  shows "next_node (doc (snd s)) \<le> next_node (doc (snd s'))
    \<and> (\<forall>n < next_node (doc (snd s)). parentNode (doc (snd s')) n = parentNode (doc (snd s)) n)"
  using assms
proof (induction xs arbitrary: i s)
  case Nil
  then show ?case by simp
next
  case (Cons x xs)
  obtain this w where s: "s = (this, w)" by (cases s)
  from create_boxHighlighting_ok[of this w str x i] Cons.prems(1)
  obtain h d1 where c: "create_boxHighlighting str x i (this, w) =
            Inr (this\<lparr>boxHighlightings := boxHighlightings this @ [h]\<rparr>, w\<lparr>doc := d1\<rparr>)"
      and ok1: "highlightings_ok (this\<lparr>boxHighlightings := boxHighlightings this @ [h]\<rparr>, w\<lparr>doc := d1\<rparr>)"
      and n1: "next_node (doc w) \<le> next_node d1"
      and p1: "\<forall>n < next_node (doc w). parentNode d1 n = parentNode (doc w) n"
    unfolding s by blast
  define s1 where "s1 = (this\<lparr>boxHighlightings := boxHighlightings this @ [h]\<rparr>, w\<lparr>doc := d1\<rparr>)"
  have r: "forEach_throwing_from (Suc i) (create_boxHighlighting str) xs s1 = Inr s'"
    using Cons.prems(2) c by (simp add: s s1_def)
  from Cons.IH[OF ok1[folded s1_def] r]
  have "next_node (doc (snd s1)) \<le> next_node (doc (snd s'))"
    "\<forall>n < next_node (doc (snd s1)). parentNode (doc (snd s')) n = parentNode (doc (snd s1)) n"
    by simp_all
  then show ?case using n1 p1 by (simp add: s s1_def)
qed

lemma create_boxTrace_parents:
  assumes "traces_ok (this, w)" and "create_boxTrace e i (this, w) = Inr s1"
  shows "\<forall>n < next_node (doc w). parentNode (doc (snd s1)) n = parentNode (doc w) n"
proof -
  have dok: "dom_ok (doc w)" using assms(1) by simp
  from BoxTrace_new_ok[OF dok refl] obtain t d3 where
    new: "BoxTrace_new (doc w) = Inr (t, d3)"
    and nodes: "BoxTrace_nodes t = [next_node (doc w), Suc (next_node (doc w)), Suc (Suc (next_node (doc w)))]"
    and ok3: "dom_ok d3"
    and old3: "\<forall>n < next_node (doc w). parentNode d3 n = parentNode (doc w) n
                 \<and> childNodes d3 n = childNodes (doc w) n \<and> attributes d3 n = attributes (doc w) n"
    by blast
  have g: "bt_domNode t = next_node (doc w)" using nodes by (simp add: BoxTrace_nodes_def)
  from assms(2) new obtain d' where a: "appendChild (tr_domNode this) (next_node (doc w)) d3 = Inr d'"
    and s1: "s1 = (this\<lparr>boxTraces := boxTraces this @ [t]\<rparr>, w\<lparr>doc := d'\<rparr>)"
    by (auto simp add: and_then_eq_Inr BoxTrace_appendTo_def g)
  show ?thesis using old3 by (simp add: s1 appendChild_eq[OF ok3 a])
qed

lemma create_boxTraces_parents:
  assumes "traces_ok s" and "forEach_throwing_from i create_boxTrace xs s = Inr s'"
  shows "next_node (doc (snd s)) \<le> next_node (doc (snd s'))
    \<and> (\<forall>n < next_node (doc (snd s)). parentNode (doc (snd s')) n = parentNode (doc (snd s)) n)"
  using assms
proof (induction xs arbitrary: i s)
  case Nil
  then show ?case by simp
next
  case (Cons x xs)
  obtain this w where s: "s = (this, w)" by (cases s)
  from create_boxTrace_ok[of this w x i] Cons.prems(1)
  obtain t d1 where c: "create_boxTrace x i (this, w) =
            Inr (this\<lparr>boxTraces := boxTraces this @ [t]\<rparr>, w\<lparr>doc := d1\<rparr>)"
      and ok1: "traces_ok (this\<lparr>boxTraces := boxTraces this @ [t]\<rparr>, w\<lparr>doc := d1\<rparr>)"
      and n1: "next_node (doc w) \<le> next_node d1"
    unfolding s by blast
  define s1 where "s1 = (this\<lparr>boxTraces := boxTraces this @ [t]\<rparr>, w\<lparr>doc := d1\<rparr>)"
  have p1: "\<forall>n < next_node (doc w). parentNode d1 n = parentNode (doc w) n"
    using create_boxTrace_parents[OF Cons.prems(1)[unfolded s] c] by simp
  have r: "forEach_throwing_from (Suc i) create_boxTrace xs s1 = Inr s'"
    using Cons.prems(2) c by (simp add: s s1_def)
  from Cons.IH[OF ok1[folded s1_def] r]
  have "next_node (doc (snd s1)) \<le> next_node (doc (snd s'))"
    "\<forall>n < next_node (doc (snd s1)). parentNode (doc (snd s')) n = parentNode (doc (snd s1)) n"
    by simp_all
  then show ?case using n1 p1 by (simp add: s s1_def)
qed

lemma refresh_parents:
  assumes "highlightings_ok s" and "refresh str ts scaling s = Inr s'"
  shows "next_node (doc (snd s)) \<le> next_node (doc (snd s'))"
    and "\<forall>n < next_node (doc (snd s)). parentNode (doc (snd s')) n = parentNode (doc (snd s)) n"
proof -
  from assms(2) obtain s1 where
    l1: "forEach_throwing_from 0 (create_boxHighlighting str) (drop (length (boxHighlightings (fst s))) ts) s = Inr s1"
    and s': "s' = forEach (hide_boxHighlighting str)
        (drop (length ts) (boxHighlightings (fst (forEach (highlight_target str (0.75 / scaling)) ts s1))))
        (forEach (highlight_target str (0.75 / scaling)) ts s1)"
    unfolding refresh_def forEach_throwing_def by (auto simp add: and_then_eq_Inr Let_def)
  define s2 where "s2 = forEach (highlight_target str (0.75 / scaling)) ts s1"
  have "next_node (doc (snd s2)) = next_node (doc (snd s1)) \<and> parentNode (doc (snd s2)) = parentNode (doc (snd s1))"
    unfolding s2_def forEach_def
    by (rule forEach_from_inv[where I = "\<lambda>s. next_node (doc (snd s)) = next_node (doc (snd s1))
          \<and> parentNode (doc (snd s)) = parentNode (doc (snd s1))"])
       (simp_all add: highlight_target_frame)
  moreover have "next_node (doc (snd s')) = next_node (doc (snd s2)) \<and> parentNode (doc (snd s')) = parentNode (doc (snd s2))"
  proof -
    have "s' = forEach_from 0 (hide_boxHighlighting str) (drop (length ts) (boxHighlightings (fst s2))) s2"
      unfolding s' s2_def forEach_def ..
    then show ?thesis by (cases s2) (simp add: hide_boxHighlightings_eq)
  qed
  ultimately show "next_node (doc (snd s)) \<le> next_node (doc (snd s'))"
    and "\<forall>n < next_node (doc (snd s)). parentNode (doc (snd s')) n = parentNode (doc (snd s)) n"
    using create_boxHighlightings_parents[OF assms(1) l1] by simp_all
qed

lemma refresh_traces_parents:
  assumes "traces_ok s" and "refresh_traces str ts s = Inr s'"
  shows "next_node (doc (snd s)) \<le> next_node (doc (snd s'))"
    and "\<forall>n < next_node (doc (snd s)). parentNode (doc (snd s')) n = parentNode (doc (snd s)) n"
proof -
  from assms(2) obtain s1 where
    l1: "forEach_throwing_from 0 create_boxTrace (drop (length (boxTraces (fst s))) ts) s = Inr s1"
    and s': "s' = forEach (hide_boxTrace str)
        (drop (length ts) (boxTraces (fst (forEach (trace_target str) ts s1))))
        (forEach (trace_target str) ts s1)"
    unfolding refresh_traces_def forEach_throwing_def by (auto simp add: and_then_eq_Inr Let_def)
  define s2 where "s2 = forEach (trace_target str) ts s1"
  have "next_node (doc (snd s2)) = next_node (doc (snd s1)) \<and> parentNode (doc (snd s2)) = parentNode (doc (snd s1))"
    unfolding s2_def forEach_def
    by (rule forEach_from_inv[where I = "\<lambda>s. next_node (doc (snd s)) = next_node (doc (snd s1))
          \<and> parentNode (doc (snd s)) = parentNode (doc (snd s1))"])
       (simp_all add: trace_target_frame)
  moreover have "next_node (doc (snd s')) = next_node (doc (snd s2)) \<and> parentNode (doc (snd s')) = parentNode (doc (snd s2))"
  proof -
    have "s' = forEach_from 0 (hide_boxTrace str) (drop (length ts) (boxTraces (fst s2))) s2"
      unfolding s' s2_def forEach_def ..
    then show ?thesis by (cases s2) (simp add: hide_boxTraces_eq)
  qed
  ultimately show "next_node (doc (snd s)) \<le> next_node (doc (snd s'))"
    and "\<forall>n < next_node (doc (snd s)). parentNode (doc (snd s')) n = parentNode (doc (snd s)) n"
    using create_boxTraces_parents[OF assms(1) l1] by simp_all
qed

lemma example_refreshed_nodes:
  "domNode (fst example_refreshed) = 2" "3 \<le> next_node (doc (snd example_refreshed))"
  "n < 3 \<Longrightarrow> parentNode (doc (snd example_refreshed)) n = None"
proof -
  from refresh_ok[OF example_controller_ok(1), of decimal example_targets 1] example_refreshed_eq
  have "domNode (fst example_refreshed) = domNode (fst example_controller)" by auto
  then show "domNode (fst example_refreshed) = 2" by (simp add: example_controller_nodes)
  note p = refresh_parents[OF example_controller_ok(1) example_refreshed_eq]
  show "3 \<le> next_node (doc (snd example_refreshed))"
    using p(1) by (simp add: example_controller_nodes)
  show "n < 3 \<Longrightarrow> parentNode (doc (snd example_refreshed)) n = None"
    using p(2) by (simp add: example_controller_nodes)
qed

lemma example_traces_refreshed_nodes:
  "tr_domNode (fst example_traces_refreshed) = 2" "3 \<le> next_node (doc (snd example_traces_refreshed))"
  "n < 3 \<Longrightarrow> parentNode (doc (snd example_traces_refreshed)) n = None"
proof -
  from refresh_traces_ok[OF example_trace_controller_ok(1), of decimal example_targets]
    example_traces_refreshed_eq
  have "tr_domNode (fst example_traces_refreshed) = tr_domNode (fst example_trace_controller)" by auto
  then show "tr_domNode (fst example_traces_refreshed) = 2" by (simp add: example_trace_controller_nodes)
  note p = refresh_traces_parents[OF example_trace_controller_ok(1) example_traces_refreshed_eq]
  show "3 \<le> next_node (doc (snd example_traces_refreshed))"
    using p(1) by (simp add: example_trace_controller_nodes)
  show "n < 3 \<Longrightarrow> parentNode (doc (snd example_traces_refreshed)) n = None"
    using p(2) by (simp add: example_trace_controller_nodes)
qed

subsection \<open>Appending and removing a node again\<close>

lemma remove_node_parentless: "parentNode d n = None \<Longrightarrow> remove_node n d = d"
  by (simp add: remove_node_def)

lemma append_remove_cycle:
  assumes "dom_ok d" and "appendChild c n d = Inr d1"
  shows "parentNode d1 n = Some c"
    and "childNodes d1 c = remove1 n (childNodes d c) @ [n]"
    and "parentNode (remove_node n d1) n = None"
    and "childNodes (remove_node n d1) = (\<lambda>p. remove1 n (childNodes d p))"
    and "parentNode (remove_node n d1) = (parentNode d)(n := None)"
    and "appendChild c n (remove_node n d1) = Inr d1"
proof -
  note eq1 = appendChild_eq[OF assms]
  have ok1: "dom_ok d1" by (rule dom_ok_appendChild[OF assms])
  note eq2 = remove_node_eq[OF ok1, of n]
  have dist: "distinct (childNodes d p)" for p using assms(1) by (simp add: dom_ok_def)
  have r1: "remove1 n (remove1 n (childNodes d p)) = remove1 n (childNodes d p)" for p
    using dist[of p] by (simp add: remove1_idem)
  have r2: "remove1 n (remove1 n (childNodes d p) @ [n]) = remove1 n (childNodes d p)" for p
    using dist[of p] by (simp add: remove1_append)
  show "parentNode d1 n = Some c" by (simp add: eq1)
  show "childNodes d1 c = remove1 n (childNodes d c) @ [n]" by (simp add: eq1)
  show "parentNode (remove_node n d1) n = None" by (simp add: eq2)
  show "childNodes (remove_node n d1) = (\<lambda>p. remove1 n (childNodes d p))"
    by (simp add: eq2) (simp add: eq1 r1 r2 fun_eq_iff)
  show "parentNode (remove_node n d1) = (parentNode d)(n := None)"
    by (simp add: eq2) (simp add: eq1)
  show "appendChild c n (remove_node n d1) = Inr d1" by (rule appendChild_again[OF assms])
qed

subsection \<open>Removing the controller from its container\<close>

lemma highlightings_dom_ok: "highlightings_ok s \<Longrightarrow> dom_ok (doc (snd s))"
  by (cases s) simp

lemma traces_dom_ok: "traces_ok s \<Longrightarrow> dom_ok (doc (snd s))"
  by (cases s) simp

lemma dom_ok_parentless: "dom_ok d \<Longrightarrow> parentNode d n = None \<Longrightarrow> n \<notin> set (childNodes d p)"
  unfolding dom_ok_def by (metis option.distinct(1))

lemma remove_highlightings_eq:
  assumes "highlightings_ok s"
  shows "remove_highlightings s =
     (fst s, (snd s)\<lparr>doc := (doc (snd s))
        \<lparr>parentNode := (parentNode (doc (snd s)))(domNode (fst s) := None),
         childNodes := (\<lambda>p. remove1 (domNode (fst s)) (childNodes (doc (snd s)) p))\<rparr>\<rparr>)"
proof -
  obtain this w where s: "s = (this, w)" by (cases s)
  have "dom_ok (doc w)" using assms by (simp add: s)
  from remove_node_eq[OF this, of "domNode this"] show ?thesis by (simp add: s)
qed

lemma remove_traces_eq:
  assumes "traces_ok s"
  shows "remove_traces s =
     (fst s, (snd s)\<lparr>doc := (doc (snd s))
        \<lparr>parentNode := (parentNode (doc (snd s)))(tr_domNode (fst s) := None),
         childNodes := (\<lambda>p. remove1 (tr_domNode (fst s)) (childNodes (doc (snd s)) p))\<rparr>\<rparr>)"
proof -
  obtain this w where s: "s = (this, w)" by (cases s)
  have "dom_ok (doc w)" using assms by (simp add: s)
  from remove_node_eq[OF this, of "tr_domNode this"] show ?thesis by (simp add: s)
qed

lemma remove_highlightings_parentless:
  "parentNode (doc (snd s)) (domNode (fst s)) = None \<Longrightarrow> remove_highlightings s = s"
  by (cases s) (simp add: remove_node_parentless)

lemma remove_traces_parentless:
  "parentNode (doc (snd s)) (tr_domNode (fst s)) = None \<Longrightarrow> remove_traces s = s"
  by (cases s) (simp add: remove_node_parentless)

lemma appendTo_remove_cycle:
  assumes "highlightings_ok s" and "appendTo c s = Inr s1"
  shows "childNodes (doc (snd s1)) c
           = remove1 (domNode (fst s)) (childNodes (doc (snd s)) c) @ [domNode (fst s)]"
    and "childNodes (doc (snd (remove_highlightings s1))) c
           = remove1 (domNode (fst s)) (childNodes (doc (snd s)) c)"
    and "parentNode (doc (snd (remove_highlightings s1))) (domNode (fst s)) = None"
    and "remove_highlightings (remove_highlightings s1) = remove_highlightings s1"
    and "appendTo c (remove_highlightings s1) = Inr s1"
proof -
  obtain this w where s: "s = (this, w)" by (cases s)
  note a = appendTo_ok[OF assms]
  have dok: "dom_ok (doc (snd s))" using assms(1) by (simp add: s)
  note cyc = append_remove_cycle[OF dok a(7)]
  obtain this1 w1 where s1: "s1 = (this1, w1)" by (cases s1)
  have this1: "this1 = this" using a(2) by (simp add: s s1)
  show "childNodes (doc (snd s1)) c
           = remove1 (domNode (fst s)) (childNodes (doc (snd s)) c) @ [domNode (fst s)]"
    by (rule cyc(2))
  show "childNodes (doc (snd (remove_highlightings s1))) c
           = remove1 (domNode (fst s)) (childNodes (doc (snd s)) c)"
    using cyc(4) by (simp add: s s1 this1)
  show p: "parentNode (doc (snd (remove_highlightings s1))) (domNode (fst s)) = None"
    using cyc(3) by (simp add: s s1 this1)
  show "remove_highlightings (remove_highlightings s1) = remove_highlightings s1"
    using p remove_highlightings_ok(2)[OF a(1)] a(2)
    by (intro remove_highlightings_parentless) simp
  show "appendTo c (remove_highlightings s1) = Inr s1"
    using cyc(6) by (simp add: s s1 this1)
qed

lemma appendTo_traces_remove_cycle:
  assumes "traces_ok s" and "appendTo_traces c s = Inr s1"
  shows "childNodes (doc (snd s1)) c
           = remove1 (tr_domNode (fst s)) (childNodes (doc (snd s)) c) @ [tr_domNode (fst s)]"
    and "childNodes (doc (snd (remove_traces s1))) c
           = remove1 (tr_domNode (fst s)) (childNodes (doc (snd s)) c)"
    and "parentNode (doc (snd (remove_traces s1))) (tr_domNode (fst s)) = None"
    and "remove_traces (remove_traces s1) = remove_traces s1"
    and "appendTo_traces c (remove_traces s1) = Inr s1"
proof -
  obtain this w where s: "s = (this, w)" by (cases s)
  note a = appendTo_traces_ok[OF assms]
  have dok: "dom_ok (doc (snd s))" using assms(1) by (simp add: s)
  note cyc = append_remove_cycle[OF dok a(7)]
  obtain this1 w1 where s1: "s1 = (this1, w1)" by (cases s1)
  have this1: "this1 = this" using a(2) by (simp add: s s1)
  show "childNodes (doc (snd s1)) c
           = remove1 (tr_domNode (fst s)) (childNodes (doc (snd s)) c) @ [tr_domNode (fst s)]"
    by (rule cyc(2))
  show "childNodes (doc (snd (remove_traces s1))) c
           = remove1 (tr_domNode (fst s)) (childNodes (doc (snd s)) c)"
    using cyc(4) by (simp add: s s1 this1)
  show p: "parentNode (doc (snd (remove_traces s1))) (tr_domNode (fst s)) = None"
    using cyc(3) by (simp add: s s1 this1)
  show "remove_traces (remove_traces s1) = remove_traces s1"
    using p remove_traces_ok(2)[OF a(1)] a(2)
    by (intro remove_traces_parentless) simp
  show "appendTo_traces c (remove_traces s1) = Inr s1"
    using cyc(6) by (simp add: s s1 this1)
qed

text \<open>
  C9: for a controller that \<open>appendTo\<close> has put into a container, \<open>remove\<close> changes the
  document in the parent of the group node of the controller, which is none afterwards, and
  in the child lists, which lose this node, and it changes nothing else: the pool, the
  attributes of all nodes, the console, the listeners for the change events and the
  observers are the same. \<open>appendTo\<close> itself keeps the pool and the attributes, and makes the
  group node the last child of the container. After \<open>appendTo\<close> and \<open>remove\<close> the container
  has the children that it had, without the group node; a second \<open>remove\<close> changes nothing,
  as does a \<open>remove\<close> of a controller whose group node has no parent; and \<open>appendTo\<close> to the
  same container after the \<open>remove\<close> gives the state after the first \<open>appendTo\<close> again. This
  holds for both controllers.
\<close>

theorem remove_detaches_only:
  assumes "highlightings_ok s" and "appendTo c s = Inr s1"
    and "traces_ok st" and "appendTo_traces c st = Inr st1"
  shows "fst s1 = fst s \<and> attributes (doc (snd s1)) = attributes (doc (snd s))
       \<and> childNodes (doc (snd s1)) c
            = remove1 (domNode (fst s)) (childNodes (doc (snd s)) c) @ [domNode (fst s)]
       \<and> remove_highlightings s1 =
            (fst s1, (snd s1)\<lparr>doc := (doc (snd s1))
               \<lparr>parentNode := (parentNode (doc (snd s1)))(domNode (fst s1) := None),
                childNodes := (\<lambda>p. remove1 (domNode (fst s1)) (childNodes (doc (snd s1)) p))\<rparr>\<rparr>)
       \<and> boxHighlightings (fst (remove_highlightings s1)) = boxHighlightings (fst s)
       \<and> attributes (doc (snd (remove_highlightings s1))) = attributes (doc (snd s))
       \<and> changeListeners (snd (remove_highlightings s1)) = changeListeners (snd s)
       \<and> observers (snd (remove_highlightings s1)) = observers (snd s)
       \<and> parentNode (doc (snd (remove_highlightings s1))) (domNode (fst s)) = None
       \<and> childNodes (doc (snd (remove_highlightings s1))) c
            = remove1 (domNode (fst s)) (childNodes (doc (snd s)) c)
       \<and> remove_highlightings (remove_highlightings s1) = remove_highlightings s1
       \<and> (parentNode (doc (snd s)) (domNode (fst s)) = None \<longrightarrow> remove_highlightings s = s)
       \<and> appendTo c (remove_highlightings s1) = Inr s1
       \<and> fst st1 = fst st \<and> attributes (doc (snd st1)) = attributes (doc (snd st))
       \<and> childNodes (doc (snd st1)) c
            = remove1 (tr_domNode (fst st)) (childNodes (doc (snd st)) c) @ [tr_domNode (fst st)]
       \<and> remove_traces st1 =
            (fst st1, (snd st1)\<lparr>doc := (doc (snd st1))
               \<lparr>parentNode := (parentNode (doc (snd st1)))(tr_domNode (fst st1) := None),
                childNodes := (\<lambda>p. remove1 (tr_domNode (fst st1)) (childNodes (doc (snd st1)) p))\<rparr>\<rparr>)
       \<and> boxTraces (fst (remove_traces st1)) = boxTraces (fst st)
       \<and> attributes (doc (snd (remove_traces st1))) = attributes (doc (snd st))
       \<and> changeListeners (snd (remove_traces st1)) = changeListeners (snd st)
       \<and> observers (snd (remove_traces st1)) = observers (snd st)
       \<and> parentNode (doc (snd (remove_traces st1))) (tr_domNode (fst st)) = None
       \<and> childNodes (doc (snd (remove_traces st1))) c
            = remove1 (tr_domNode (fst st)) (childNodes (doc (snd st)) c)
       \<and> remove_traces (remove_traces st1) = remove_traces st1
       \<and> (parentNode (doc (snd st)) (tr_domNode (fst st)) = None \<longrightarrow> remove_traces st = st)
       \<and> appendTo_traces c (remove_traces st1) = Inr st1"
proof -
  note a = appendTo_ok[OF assms(1,2)]
  note r = remove_highlightings_ok[OF a(1)]
  note cyc = appendTo_remove_cycle[OF assms(1,2)]
  note ta = appendTo_traces_ok[OF assms(3,4)]
  note tr = remove_traces_ok[OF ta(1)]
  note tcyc = appendTo_traces_remove_cycle[OF assms(3,4)]
  have h1: "boxHighlightings (fst (remove_highlightings s1)) = boxHighlightings (fst s)"
    by (simp add: r(2) a(2))
  have h2: "attributes (doc (snd (remove_highlightings s1))) = attributes (doc (snd s))"
    by (simp add: r(6) a(6))
  have h3: "changeListeners (snd (remove_highlightings s1)) = changeListeners (snd s)"
    "observers (snd (remove_highlightings s1)) = observers (snd s)"
    by (simp_all add: r(4,5) a(4,5))
  have h4: "parentNode (doc (snd s)) (domNode (fst s)) = None \<longrightarrow> remove_highlightings s = s"
    using remove_highlightings_parentless by blast
  have t1: "boxTraces (fst (remove_traces st1)) = boxTraces (fst st)"
    by (simp add: tr(2) ta(2))
  have t2: "attributes (doc (snd (remove_traces st1))) = attributes (doc (snd st))"
    by (simp add: tr(6) ta(6))
  have t3: "changeListeners (snd (remove_traces st1)) = changeListeners (snd st)"
    "observers (snd (remove_traces st1)) = observers (snd st)"
    by (simp_all add: tr(4,5) ta(4,5))
  have t4: "parentNode (doc (snd st)) (tr_domNode (fst st)) = None \<longrightarrow> remove_traces st = st"
    using remove_traces_parentless by blast
  show ?thesis
    by (intro conjI a(2) a(6) cyc(1) remove_highlightings_eq[OF a(1)] h1 h2 h3 cyc(3) cyc(2) cyc(4) h4 cyc(5)
        ta(2) ta(6) tcyc(1) remove_traces_eq[OF ta(1)] t1 t2 t3 tcyc(3) tcyc(2) tcyc(4) t4 tcyc(5))
qed

theorem remove_detaches_only_witness:
  "highlightings_ok example_refreshed \<and> traces_ok example_traces_refreshed
   \<and> length (boxHighlightings (fst example_refreshed)) = 3
   \<and> length (boxTraces (fst example_traces_refreshed)) = 3
   \<and> (\<exists>s1. appendTo 1 example_refreshed = Inr s1
         \<and> childNodes (doc (snd s1)) 1 = childNodes (doc (snd example_refreshed)) 1 @ [2]
         \<and> boxHighlightings (fst (remove_highlightings s1)) = boxHighlightings (fst example_refreshed)
         \<and> attributes (doc (snd (remove_highlightings s1))) = attributes (doc (snd example_refreshed))
         \<and> observers (snd (remove_highlightings s1)) = observers (snd example_refreshed)
         \<and> childNodes (doc (snd (remove_highlightings s1))) 1 = childNodes (doc (snd example_refreshed)) 1
         \<and> remove_highlightings example_refreshed = example_refreshed
         \<and> appendTo 1 (remove_highlightings s1) = Inr s1)
   \<and> (\<exists>st1. appendTo_traces 1 example_traces_refreshed = Inr st1
         \<and> childNodes (doc (snd st1)) 1 = childNodes (doc (snd example_traces_refreshed)) 1 @ [2]
         \<and> boxTraces (fst (remove_traces st1)) = boxTraces (fst example_traces_refreshed)
         \<and> attributes (doc (snd (remove_traces st1))) = attributes (doc (snd example_traces_refreshed))
         \<and> observers (snd (remove_traces st1)) = observers (snd example_traces_refreshed)
         \<and> childNodes (doc (snd (remove_traces st1))) 1 = childNodes (doc (snd example_traces_refreshed)) 1
         \<and> remove_traces example_traces_refreshed = example_traces_refreshed
         \<and> appendTo_traces 1 (remove_traces st1) = Inr st1)"
proof -
  have "1 < next_node (doc (snd example_refreshed))"
    using example_refreshed_nodes(2) by simp
  then have "\<exists>s1. appendTo 1 example_refreshed = Inr s1"
    by (intro appendTo_returns example_refreshed_ok(1)) (simp_all add: example_refreshed_nodes)
  then obtain s1 where s1: "appendTo 1 example_refreshed = Inr s1" by blast
  have "1 < next_node (doc (snd example_traces_refreshed))"
    using example_traces_refreshed_nodes(2) by simp
  then have "\<exists>st1. appendTo_traces 1 example_traces_refreshed = Inr st1"
    by (intro appendTo_traces_returns example_traces_refreshed_ok(1))
       (simp_all add: example_traces_refreshed_nodes)
  then obtain st1 where st1: "appendTo_traces 1 example_traces_refreshed = Inr st1" by blast
  note w = remove_detaches_only[OF example_refreshed_ok(1) s1 example_traces_refreshed_ok(1) st1]
  have "dom_ok (doc (snd example_refreshed))"
    by (rule highlightings_dom_ok[OF example_refreshed_ok(1)])
  then have "2 \<notin> set (childNodes (doc (snd example_refreshed)) 1)"
    using example_refreshed_nodes(3)[of 2] by (intro dom_ok_parentless) simp_all
  then have k: "remove1 2 (childNodes (doc (snd example_refreshed)) 1) = childNodes (doc (snd example_refreshed)) 1"
    by (simp add: remove1_idem)
  have "dom_ok (doc (snd example_traces_refreshed))"
    by (rule traces_dom_ok[OF example_traces_refreshed_ok(1)])
  then have "2 \<notin> set (childNodes (doc (snd example_traces_refreshed)) 1)"
    using example_traces_refreshed_nodes(3)[of 2] by (intro dom_ok_parentless) simp_all
  then have tk: "remove1 2 (childNodes (doc (snd example_traces_refreshed)) 1)
      = childNodes (doc (snd example_traces_refreshed)) 1"
    by (simp add: remove1_idem)
  have p2: "parentNode (doc (snd example_refreshed)) 2 = None"
    by (rule example_refreshed_nodes(3)) simp
  have tp2: "parentNode (doc (snd example_traces_refreshed)) 2 = None"
    by (rule example_traces_refreshed_nodes(3)) simp
  note w' = w[unfolded example_refreshed_nodes(1) example_traces_refreshed_nodes(1) k tk]
  have a: "childNodes (doc (snd s1)) 1 = childNodes (doc (snd example_refreshed)) 1 @ [2]"
    "boxHighlightings (fst (remove_highlightings s1)) = boxHighlightings (fst example_refreshed)"
    "attributes (doc (snd (remove_highlightings s1))) = attributes (doc (snd example_refreshed))"
    "observers (snd (remove_highlightings s1)) = observers (snd example_refreshed)"
    "childNodes (doc (snd (remove_highlightings s1))) 1 = childNodes (doc (snd example_refreshed)) 1"
    "remove_highlightings example_refreshed = example_refreshed"
    "appendTo 1 (remove_highlightings s1) = Inr s1"
    using w' p2 by blast+
  have b: "childNodes (doc (snd st1)) 1 = childNodes (doc (snd example_traces_refreshed)) 1 @ [2]"
    "boxTraces (fst (remove_traces st1)) = boxTraces (fst example_traces_refreshed)"
    "attributes (doc (snd (remove_traces st1))) = attributes (doc (snd example_traces_refreshed))"
    "observers (snd (remove_traces st1)) = observers (snd example_traces_refreshed)"
    "childNodes (doc (snd (remove_traces st1))) 1 = childNodes (doc (snd example_traces_refreshed)) 1"
    "remove_traces example_traces_refreshed = example_traces_refreshed"
    "appendTo_traces 1 (remove_traces st1) = Inr st1"
    using w' tp2 by blast+
  show ?thesis
    using example_refreshed_ok(1,2) example_traces_refreshed_ok(1,2) s1 st1 a b by blast
qed

subsection \<open>One parent at a time\<close>

lemma dom_ok_one_parent:
  "dom_ok d \<Longrightarrow> p \<in> parents d n \<Longrightarrow> q \<in> parents d n \<Longrightarrow> p = q"
  unfolding parents_def using dom_ok_child_unique by blast

lemma appendChild_twice:
  assumes "dom_ok d" and "appendChild c1 n d = Inr d1" and "appendChild c2 n d1 = Inr d2"
  shows "parents d1 n = {c1}" and "parents d2 n = {c2}" and "parentNode d2 n = Some c2"
    and "c1 \<noteq> c2 \<longrightarrow> n \<notin> set (childNodes d2 c1)"
    and "distinct (childNodes d2 c2)"
proof -
  have ok1: "dom_ok d1" by (rule dom_ok_appendChild[OF assms(1,2)])
  have ok2: "dom_ok d2" by (rule dom_ok_appendChild[OF ok1 assms(3)])
  show "parents d1 n = {c1}" by (rule appendChild_parents(2)[OF assms(1,2)])
  show p2: "parents d2 n = {c2}" by (rule appendChild_parents(2)[OF ok1 assms(3)])
  show "parentNode d2 n = Some c2" by (rule appendChild_parents(1)[OF ok1 assms(3)])
  show "c1 \<noteq> c2 \<longrightarrow> n \<notin> set (childNodes d2 c1)"
    using p2 by (auto simp add: parents_def)
  show "distinct (childNodes d2 c2)" using ok2 by (simp add: dom_ok_def)
qed

lemma appendChild_returns:
  assumes "c < next_node d" and "n < next_node d" and "parentNode d c = None" and "c \<noteq> n"
  shows "\<exists>d'. appendChild c n d = Inr d'"
proof -
  have "\<not> inclusive_ancestor k (parentNode d) n c" for k
    using assms(3,4) by (cases k) simp_all
  then show ?thesis using assms(1,2) by (simp add: appendChild_def Let_def)
qed

lemma appendChild_twice_returns:
  assumes "dom_ok d" and "c1 < next_node d" and "c2 < next_node d" and "n < next_node d"
    and "parentNode d c1 = None" and "parentNode d c2 = None" and "c1 \<noteq> n" and "c2 \<noteq> n"
  shows "\<exists>d1 d2. appendChild c1 n d = Inr d1 \<and> appendChild c2 n d1 = Inr d2"
proof -
  from appendChild_returns[OF assms(2,4,5,7)]
  obtain d1 where d1: "appendChild c1 n d = Inr d1" by blast
  note eq = appendChild_eq[OF assms(1) d1]
  have "\<exists>d2. appendChild c2 n d1 = Inr d2"
    using assms by (intro appendChild_returns) (simp_all add: eq)
  then show ?thesis using d1 by blast
qed

lemma highlightings_marker_node:
  assumes "highlightings_ok s" and "k < length (boxHighlightings (fst s))"
  shows "bh_domNode (boxHighlightings (fst s) ! k) < next_node (doc (snd s))"
proof -
  obtain this w where s: "s = (this, w)" by (cases s)
  have b: "\<forall>n \<in> set (concat (map BoxHighlighting_nodes (boxHighlightings this))). n < next_node (doc w)"
    using assms(1) unfolding s highlightings_ok.simps by blast
  have "boxHighlightings this ! k \<in> set (boxHighlightings this)"
    using assms(2) by (simp add: s)
  moreover have "bh_domNode (boxHighlightings this ! k) \<in> set (BoxHighlighting_nodes (boxHighlightings this ! k))"
    by (simp add: BoxHighlighting_nodes_def)
  ultimately have "bh_domNode (boxHighlightings this ! k)
      \<in> set (concat (map BoxHighlighting_nodes (boxHighlightings this)))"
    unfolding set_concat set_map by blast
  then show ?thesis using b by (simp only: s fst_conv snd_conv)
qed

lemma traces_marker_node:
  assumes "traces_ok s" and "k < length (boxTraces (fst s))"
  shows "bt_domNode (boxTraces (fst s) ! k) < next_node (doc (snd s))"
proof -
  obtain this w where s: "s = (this, w)" by (cases s)
  have b: "\<forall>n \<in> set (concat (map BoxTrace_nodes (boxTraces this))). n < next_node (doc w)"
    using assms(1) unfolding s traces_ok.simps by blast
  have "boxTraces this ! k \<in> set (boxTraces this)"
    using assms(2) by (simp add: s)
  moreover have "bt_domNode (boxTraces this ! k) \<in> set (BoxTrace_nodes (boxTraces this ! k))"
    by (simp add: BoxTrace_nodes_def)
  ultimately have "bt_domNode (boxTraces this ! k) \<in> set (concat (map BoxTrace_nodes (boxTraces this)))"
    unfolding set_concat set_map by blast
  then show ?thesis using b by (simp only: s fst_conv snd_conv)
qed

lemma appendTo_eq_Inr:
  "appendTo c s = Inr s' \<longleftrightarrow>
     (\<exists>d'. appendChild c (domNode (fst s)) (doc (snd s)) = Inr d' \<and> s' = (fst s, (snd s)\<lparr>doc := d'\<rparr>))"
  by (cases s) (auto simp add: and_then_eq_Inr)

lemma appendTo_traces_eq_Inr:
  "appendTo_traces c s = Inr s' \<longleftrightarrow>
     (\<exists>d'. appendChild c (tr_domNode (fst s)) (doc (snd s)) = Inr d' \<and> s' = (fst s, (snd s)\<lparr>doc := d'\<rparr>))"
  by (cases s) (auto simp add: and_then_eq_Inr)

text \<open>
  C10: a node has at most one parent. In every state that a controller reaches no node is
  in the child lists of two nodes. After \<open>appendTo\<close> with a first container and \<open>appendTo\<close>
  with a second container, without a \<open>remove\<close> in between, the only node that has the group
  node of the controller among its children is the second container, once, and the parent
  of the group node is the second container. The same holds for the group node of a box
  highlighting and of a box trace under their \<open>appendTo\<close>.
\<close>

theorem one_parent_at_a_time:
  assumes "highlightings_ok s" and "appendTo c1 s = Inr s1" and "appendTo c2 s1 = Inr s2"
    and "traces_ok st" and "appendTo_traces c1 st = Inr st1" and "appendTo_traces c2 st1 = Inr st2"
    and "BoxHighlighting_appendTo c1 h (doc (snd s)) = Inr d1"
    and "BoxHighlighting_appendTo c2 h d1 = Inr d2"
    and "BoxTrace_appendTo c1 t (doc (snd st)) = Inr e1"
    and "BoxTrace_appendTo c2 t e1 = Inr e2"
  shows "parents (doc (snd s1)) (domNode (fst s)) = {c1}
       \<and> parents (doc (snd s2)) (domNode (fst s)) = {c2}
       \<and> parentNode (doc (snd s2)) (domNode (fst s)) = Some c2
       \<and> (c1 \<noteq> c2 \<longrightarrow> domNode (fst s) \<notin> set (childNodes (doc (snd s2)) c1))
       \<and> distinct (childNodes (doc (snd s2)) c2)
       \<and> parents (doc (snd st1)) (tr_domNode (fst st)) = {c1}
       \<and> parents (doc (snd st2)) (tr_domNode (fst st)) = {c2}
       \<and> parentNode (doc (snd st2)) (tr_domNode (fst st)) = Some c2
       \<and> (c1 \<noteq> c2 \<longrightarrow> tr_domNode (fst st) \<notin> set (childNodes (doc (snd st2)) c1))
       \<and> distinct (childNodes (doc (snd st2)) c2)
       \<and> parents d1 (bh_domNode h) = {c1}
       \<and> parents d2 (bh_domNode h) = {c2}
       \<and> parentNode d2 (bh_domNode h) = Some c2
       \<and> (c1 \<noteq> c2 \<longrightarrow> bh_domNode h \<notin> set (childNodes d2 c1))
       \<and> distinct (childNodes d2 c2)
       \<and> parents e1 (bt_domNode t) = {c1}
       \<and> parents e2 (bt_domNode t) = {c2}
       \<and> parentNode e2 (bt_domNode t) = Some c2
       \<and> (c1 \<noteq> c2 \<longrightarrow> bt_domNode t \<notin> set (childNodes e2 c1))
       \<and> distinct (childNodes e2 c2)
       \<and> (\<forall>es s' n p q. run str es s = Inr s'
             \<and> p \<in> parents (doc (snd s')) n \<and> q \<in> parents (doc (snd s')) n \<longrightarrow> p = q)
       \<and> (\<forall>es st' n p q. run_traces str es st = Inr st'
             \<and> p \<in> parents (doc (snd st')) n \<and> q \<in> parents (doc (snd st')) n \<longrightarrow> p = q)"
proof -
  have dok: "dom_ok (doc (snd s))" by (rule highlightings_dom_ok[OF assms(1)])
  have tdok: "dom_ok (doc (snd st))" by (rule traces_dom_ok[OF assms(4)])
  note a1 = appendTo_ok[OF assms(1,2)]
  note a2 = appendTo_ok[OF a1(1) assms(3)]
  note c = appendChild_twice[OF dok a1(7) a2(7)[unfolded a1(2)]]
  note b1 = appendTo_traces_ok[OF assms(4,5)]
  note b2 = appendTo_traces_ok[OF b1(1) assms(6)]
  note tc = appendChild_twice[OF tdok b1(7) b2(7)[unfolded b1(2)]]
  note hc = appendChild_twice[OF dok assms(7,8)[unfolded BoxHighlighting_appendTo_def]]
  note bc = appendChild_twice[OF tdok assms(9,10)[unfolded BoxTrace_appendTo_def]]
  have r: "\<forall>es s' n p q. run str es s = Inr s'
             \<and> p \<in> parents (doc (snd s')) n \<and> q \<in> parents (doc (snd s')) n \<longrightarrow> p = q"
  proof (intro allI impI)
    fix es s' n p q
    assume h: "run str es s = Inr s'
             \<and> p \<in> parents (doc (snd s')) n \<and> q \<in> parents (doc (snd s')) n"
    then have "highlightings_ok s'" using run_ok[OF assms(1)] by blast
    then have "dom_ok (doc (snd s'))" by (rule highlightings_dom_ok)
    then show "p = q" using h dom_ok_one_parent by blast
  qed
  have tr: "\<forall>es st' n p q. run_traces str es st = Inr st'
             \<and> p \<in> parents (doc (snd st')) n \<and> q \<in> parents (doc (snd st')) n \<longrightarrow> p = q"
  proof (intro allI impI)
    fix es st' n p q
    assume h: "run_traces str es st = Inr st'
             \<and> p \<in> parents (doc (snd st')) n \<and> q \<in> parents (doc (snd st')) n"
    then have "traces_ok st'" using run_traces_ok[OF assms(4)] by blast
    then have "dom_ok (doc (snd st'))" by (rule traces_dom_ok)
    then show "p = q" using h dom_ok_one_parent by blast
  qed
  show ?thesis
    by (intro conjI c tc hc bc r tr)
qed

theorem one_parent_at_a_time_witness:
  "highlightings_ok example_refreshed \<and> traces_ok example_traces_refreshed
   \<and> (\<exists>s1 s2. appendTo 0 example_refreshed = Inr s1 \<and> appendTo 1 s1 = Inr s2
         \<and> parents (doc (snd s1)) 2 = {0}
         \<and> parents (doc (snd s2)) 2 = {1}
         \<and> 2 \<notin> set (childNodes (doc (snd s2)) 0))
   \<and> (\<exists>st1 st2. appendTo_traces 0 example_traces_refreshed = Inr st1 \<and> appendTo_traces 1 st1 = Inr st2
         \<and> parents (doc (snd st1)) 2 = {0}
         \<and> parents (doc (snd st2)) 2 = {1}
         \<and> 2 \<notin> set (childNodes (doc (snd st2)) 0))
   \<and> (\<exists>d1 d2. BoxHighlighting_appendTo 0 (boxHighlightings (fst example_refreshed) ! 0)
                   (doc (snd example_refreshed)) = Inr d1
         \<and> BoxHighlighting_appendTo 1 (boxHighlightings (fst example_refreshed) ! 0) d1 = Inr d2
         \<and> parents d1 (bh_domNode (boxHighlightings (fst example_refreshed) ! 0)) = {0}
         \<and> parents d2 (bh_domNode (boxHighlightings (fst example_refreshed) ! 0)) = {1}
         \<and> bh_domNode (boxHighlightings (fst example_refreshed) ! 0) \<notin> set (childNodes d2 0))
   \<and> (\<exists>e1 e2. BoxTrace_appendTo 0 (boxTraces (fst example_traces_refreshed) ! 0)
                   (doc (snd example_traces_refreshed)) = Inr e1
         \<and> BoxTrace_appendTo 1 (boxTraces (fst example_traces_refreshed) ! 0) e1 = Inr e2
         \<and> parents e1 (bt_domNode (boxTraces (fst example_traces_refreshed) ! 0)) = {0}
         \<and> parents e2 (bt_domNode (boxTraces (fst example_traces_refreshed) ! 0)) = {1}
         \<and> bt_domNode (boxTraces (fst example_traces_refreshed) ! 0) \<notin> set (childNodes e2 0))"
proof -
  define d where "d = doc (snd example_refreshed)"
  define e where "e = doc (snd example_traces_refreshed)"
  define h where "h = boxHighlightings (fst example_refreshed) ! 0"
  define t where "t = boxTraces (fst example_traces_refreshed) ! 0"
  have dok: "dom_ok d" unfolding d_def by (rule highlightings_dom_ok[OF example_refreshed_ok(1)])
  have eok: "dom_ok e" unfolding e_def by (rule traces_dom_ok[OF example_traces_refreshed_ok(1)])
  have dn: "0 < next_node d" "1 < next_node d" "2 < next_node d"
    using example_refreshed_nodes(2) by (simp_all add: d_def)
  have en: "0 < next_node e" "1 < next_node e" "2 < next_node e"
    using example_traces_refreshed_nodes(2) by (simp_all add: e_def)
  have dp: "parentNode d 0 = None" "parentNode d 1 = None"
    by (simp_all add: d_def example_refreshed_nodes(3))
  have ep: "parentNode e 0 = None" "parentNode e 1 = None"
    by (simp_all add: e_def example_traces_refreshed_nodes(3))
  have hp: "parentNode d (bh_domNode h) = Some 2" "bh_domNode h < next_node d"
    using highlightings_attached[OF example_refreshed_ok(1), of 0]
      highlightings_marker_node[OF example_refreshed_ok(1), of 0]
    by (simp_all add: d_def h_def example_refreshed_ok(2) example_refreshed_nodes(1))
  have tp: "parentNode e (bt_domNode t) = Some 2" "bt_domNode t < next_node e"
    using traces_attached[OF example_traces_refreshed_ok(1), of 0]
      traces_marker_node[OF example_traces_refreshed_ok(1), of 0]
    by (simp_all add: e_def t_def example_traces_refreshed_ok(2) example_traces_refreshed_nodes(1))
  have hne: "0 \<noteq> bh_domNode h" "1 \<noteq> bh_domNode h"
    using hp(1) dp by (metis option.distinct(1))+
  have tne: "0 \<noteq> bt_domNode t" "1 \<noteq> bt_domNode t"
    using tp(1) ep by (metis option.distinct(1))+
  from appendChild_twice_returns[OF dok dn(1,2,3) dp]
  obtain r1 r2 where r: "appendChild 0 2 d = Inr r1" "appendChild 1 2 r1 = Inr r2" by auto
  from appendChild_twice_returns[OF eok en(1,2,3) ep]
  obtain q1 q2 where q: "appendChild 0 2 e = Inr q1" "appendChild 1 2 q1 = Inr q2" by auto
  from appendChild_twice_returns[OF dok dn(1,2) hp(2) dp hne]
  obtain d1 d2 where m: "appendChild 0 (bh_domNode h) d = Inr d1" "appendChild 1 (bh_domNode h) d1 = Inr d2"
    by auto
  from appendChild_twice_returns[OF eok en(1,2) tp(2) ep tne]
  obtain e1 e2 where n: "appendChild 0 (bt_domNode t) e = Inr e1" "appendChild 1 (bt_domNode t) e1 = Inr e2"
    by auto
  define s1 where "s1 = (fst example_refreshed, (snd example_refreshed)\<lparr>doc := r1\<rparr>)"
  define s2 where "s2 = (fst s1, (snd s1)\<lparr>doc := r2\<rparr>)"
  define st1 where "st1 = (fst example_traces_refreshed, (snd example_traces_refreshed)\<lparr>doc := q1\<rparr>)"
  define st2 where "st2 = (fst st1, (snd st1)\<lparr>doc := q2\<rparr>)"
  have A: "appendTo 0 example_refreshed = Inr s1" "appendTo 1 s1 = Inr s2"
    using r by (simp_all add: appendTo_eq_Inr s1_def s2_def d_def[symmetric] example_refreshed_nodes(1))
  have B: "appendTo_traces 0 example_traces_refreshed = Inr st1" "appendTo_traces 1 st1 = Inr st2"
    using q by (simp_all add: appendTo_traces_eq_Inr st1_def st2_def e_def[symmetric]
        example_traces_refreshed_nodes(1))
  have M: "BoxHighlighting_appendTo 0 h (doc (snd example_refreshed)) = Inr d1"
    "BoxHighlighting_appendTo 1 h d1 = Inr d2"
    using m by (simp_all add: BoxHighlighting_appendTo_def d_def)
  have N: "BoxTrace_appendTo 0 t (doc (snd example_traces_refreshed)) = Inr e1"
    "BoxTrace_appendTo 1 t e1 = Inr e2"
    using n by (simp_all add: BoxTrace_appendTo_def e_def)
  note w = one_parent_at_a_time[OF example_refreshed_ok(1) A example_traces_refreshed_ok(1) B M N,
      unfolded example_refreshed_nodes(1) example_traces_refreshed_nodes(1)]
  have ne: "(0 :: nat) \<noteq> 1" by simp
  note w5 = w[THEN conjunct2, THEN conjunct2, THEN conjunct2, THEN conjunct2, THEN conjunct2]
  note w10 = w5[THEN conjunct2, THEN conjunct2, THEN conjunct2, THEN conjunct2, THEN conjunct2]
  note w15 = w10[THEN conjunct2, THEN conjunct2, THEN conjunct2, THEN conjunct2, THEN conjunct2]
  have a: "parents (doc (snd s1)) 2 = {0}" "parents (doc (snd s2)) 2 = {1}"
    "2 \<notin> set (childNodes (doc (snd s2)) 0)"
    using w[THEN conjunct1] w[THEN conjunct2, THEN conjunct1]
      w[THEN conjunct2, THEN conjunct2, THEN conjunct2, THEN conjunct1, rule_format, OF ne]
    by - assumption+
  have b: "parents (doc (snd st1)) 2 = {0}" "parents (doc (snd st2)) 2 = {1}"
    "2 \<notin> set (childNodes (doc (snd st2)) 0)"
    using w5[THEN conjunct1] w5[THEN conjunct2, THEN conjunct1]
      w5[THEN conjunct2, THEN conjunct2, THEN conjunct2, THEN conjunct1, rule_format, OF ne]
    by - assumption+
  have c: "parents d1 (bh_domNode h) = {0}" "parents d2 (bh_domNode h) = {1}"
    "bh_domNode h \<notin> set (childNodes d2 0)"
    using w10[THEN conjunct1] w10[THEN conjunct2, THEN conjunct1]
      w10[THEN conjunct2, THEN conjunct2, THEN conjunct2, THEN conjunct1, rule_format, OF ne]
    by - assumption+
  have f: "parents e1 (bt_domNode t) = {0}" "parents e2 (bt_domNode t) = {1}"
    "bt_domNode t \<notin> set (childNodes e2 0)"
    using w15[THEN conjunct1] w15[THEN conjunct2, THEN conjunct1]
      w15[THEN conjunct2, THEN conjunct2, THEN conjunct2, THEN conjunct1, rule_format, OF ne]
    by - assumption+
  show ?thesis
    unfolding h_def[symmetric] t_def[symmetric]
    using example_refreshed_ok(1) example_traces_refreshed_ok(1) A B M N a b c f by blast
qed

end
